theory Spec2Isabelle
  imports Main
begin

section \<open>Time\<close>

text \<open>
  Every clock value of the program (\<^verbatim>\<open>Date.now()\<close>, \<^verbatim>\<open>new Date()\<close> and the
  stored \<^verbatim>\<open>Date\<close> columns) is a number of milliseconds since the epoch, an integer.
  Each operation below takes the reading of the clock as its argument \<open>now\<close>; all clock
  reads made during one call see that one value.
\<close>

type_synonym millis = int

section \<open>The in-memory rate limiter (src/lib/rate-limit.ts)\<close>

record RateLimitEntry =
  count :: int
  firstAttempt :: millis
  lastAttempt :: millis

record RateLimitOptions =
  maxAttempts :: int
  windowMs :: millis

record RateLimitResult =
  success :: bool
  remaining :: int
  remainingMs :: "millis option"

text \<open>The private \<^verbatim>\<open>store: Map<string, RateLimitEntry>\<close> of the class.\<close>

type_synonym rl_store = "string \<rightharpoonup> RateLimitEntry"

definition fresh_entry :: "millis \<Rightarrow> RateLimitEntry" where
  "fresh_entry now = \<lparr>count = 1, firstAttempt = now, lastAttempt = now\<rparr>"

text \<open>
  \<^verbatim>\<open>RateLimiter.check\<close>: the three branches of the source in their order (no entry,
  expired window, active window); the result and the updated store are returned together.
\<close>

definition check :: "rl_store \<Rightarrow> string \<Rightarrow> RateLimitOptions \<Rightarrow> millis \<Rightarrow> RateLimitResult \<times> rl_store" where
  "check store key options now =
     (case store key of
        None \<Rightarrow>
          (\<lparr>success = True, remaining = maxAttempts options - 1, remainingMs = None\<rparr>,
           store(key \<mapsto> fresh_entry now))
      | Some entry \<Rightarrow>
          if now - firstAttempt entry > windowMs options then
            (\<lparr>success = True, remaining = maxAttempts options - 1, remainingMs = None\<rparr>,
             store(key \<mapsto> fresh_entry now))
          else
            let entry' = entry\<lparr>count := count entry + 1, lastAttempt := now\<rparr>;
                store' = store(key \<mapsto> entry')
            in if count entry' > maxAttempts options then
                 (\<lparr>success = False, remaining = 0,
                   remainingMs = Some (max 0 (windowMs options - (now - firstAttempt entry')))\<rparr>,
                  store')
               else
                 (\<lparr>success = True, remaining = maxAttempts options - count entry',
                   remainingMs = None\<rparr>,
                  store'))"

text \<open>\<^verbatim>\<open>RateLimiter.reset\<close>: \<^verbatim>\<open>this.store.delete(key)\<close>.\<close>

definition reset :: "rl_store \<Rightarrow> string \<Rightarrow> rl_store" where
  "reset store key = store(key := None)"

text \<open>\<^verbatim>\<open>RateLimiter.getCount\<close>: \<^verbatim>\<open>entry?.count || 0\<close>.\<close>

definition getCount :: "rl_store \<Rightarrow> string \<Rightarrow> int" where
  "getCount store key = (case store key of None \<Rightarrow> 0 | Some entry \<Rightarrow> count entry)"

text \<open>
  \<^verbatim>\<open>RateLimiter.cleanup\<close>: every entry whose last attempt is more than one hour before
  the clock reading is deleted, whatever its key.
\<close>

definition CLEANUP_MAX_AGE :: millis where
  "CLEANUP_MAX_AGE = 60 * 60 * 1000"

definition cleanup :: "rl_store \<Rightarrow> millis \<Rightarrow> rl_store" where
  "cleanup store now =
     (\<lambda>key. case store key of
              None \<Rightarrow> None
            | Some entry \<Rightarrow> if now - lastAttempt entry > CLEANUP_MAX_AGE then None else Some entry)"

text \<open>
  What happens to the limiter during a run of calls on one key: a \<^verbatim>\<open>check\<close> of the key, or
  a tick of the timer that the constructor starts with \<^verbatim>\<open>setInterval\<close>, which calls
  \<^verbatim>\<open>cleanup\<close>. Each event carries the clock reading at which it happens; the body of
  \<^verbatim>\<open>check\<close> is synchronous, so a tick never falls inside a call. The timer's period is
  five minutes; the run below lets a tick come at any moment, which covers every phase of
  the timer. The results of the checks are returned in call order with the last store.
\<close>

datatype limiter_event = CheckCall millis | CleanupTick millis

fun event_time :: "limiter_event \<Rightarrow> millis" where
  "event_time (CheckCall t) = t"
| "event_time (CleanupTick t) = t"

fun is_check :: "limiter_event \<Rightarrow> bool" where
  "is_check (CheckCall t) = True"
| "is_check (CleanupTick t) = False"

fun limiter_run :: "rl_store \<Rightarrow> string \<Rightarrow> RateLimitOptions \<Rightarrow> limiter_event list \<Rightarrow> RateLimitResult list \<times> rl_store" where
  "limiter_run store key options [] = ([], store)"
| "limiter_run store key options (CheckCall t # evs) =
     (fst (check store key options t)
        # fst (limiter_run (snd (check store key options t)) key options evs),
      snd (limiter_run (snd (check store key options t)) key options evs))"
| "limiter_run store key options (CleanupTick t # evs) =
     limiter_run (cleanup store t) key options evs"

text \<open>The clock readings of the checks of a run, in call order.\<close>

definition check_times :: "limiter_event list \<Rightarrow> millis list" where
  "check_times evs = map event_time (filter is_check evs)"

text \<open>
  No tick of a run comes more than one hour after the check of the key that precedes it
  (\<open>last_check\<close> is the clock reading of that check when the run starts).
\<close>

fun ticks_early :: "millis \<Rightarrow> limiter_event list \<Rightarrow> bool" where
  "ticks_early last_check [] = True"
| "ticks_early last_check (CheckCall t # evs) = ticks_early t evs"
| "ticks_early last_check (CleanupTick t # evs) =
     (t - last_check \<le> CLEANUP_MAX_AGE \<and> ticks_early last_check evs)"

text \<open>
  The first call of a run opens a new window when the key has no entry or its window has
  expired at that call.
\<close>

definition opens_window :: "rl_store \<Rightarrow> string \<Rightarrow> RateLimitOptions \<Rightarrow> millis \<Rightarrow> bool" where
  "opens_window store key options now =
     (case store key of
        None \<Rightarrow> True
      | Some entry \<Rightarrow> now - firstAttempt entry > windowMs options)"

section \<open>Strings\<close>

text \<open>
  A JavaScript string is modelled as a \<open>string\<close>, the list of the bytes of its UTF-8
  encoding; the fixed messages of the program that contain Turkish letters are written
  with those bytes. \<^verbatim>\<open>toLowerCase\<close> and \<^verbatim>\<open>trim\<close> are modelled on the ASCII range (the
  letters A to Z; tab, line feed, vertical tab, form feed, carriage return and space).
\<close>

definition toLowerChar :: "char \<Rightarrow> char" where
  "toLowerChar c =
     (let n = (of_char c :: nat) in if 65 \<le> n \<and> n \<le> 90 then char_of (n + 32) else c)"

definition toLowerCase :: "string \<Rightarrow> string" where
  "toLowerCase s = map toLowerChar s"

definition isWhiteSpace :: "char \<Rightarrow> bool" where
  "isWhiteSpace c = (let n = (of_char c :: nat) in (9 \<le> n \<and> n \<le> 13) \<or> n = 32)"

definition trim :: "string \<Rightarrow> string" where
  "trim s = rev (dropWhile isWhiteSpace (rev (dropWhile isWhiteSpace s)))"

text \<open>\<^verbatim>\<open>s.split(',')[0]\<close>: the part of \<open>s\<close> before its first comma.\<close>

definition firstSegment :: "string \<Rightarrow> string" where
  "firstSegment s = takeWhile (\<lambda>c. c \<noteq> CHR '','') s"

definition startsWith :: "string \<Rightarrow> string \<Rightarrow> bool" where
  "startsWith s p = (take (length p) s = p)"

text \<open>
  \<^verbatim>\<open>s.replace(pat, rep)\<close> with a string pattern: the first occurrence of \<open>pat\<close> is
  replaced (the replacements used by the program contain no \<^verbatim>\<open>$\<close>).
\<close>

fun replace :: "string \<Rightarrow> string \<Rightarrow> string \<Rightarrow> string" where
  "replace pat rep [] = (if pat = [] then rep else [])"
| "replace pat rep (c # cs) =
     (if take (length pat) (c # cs) = pat then rep @ drop (length pat) (c # cs)
      else c # replace pat rep cs)"

text \<open>A string or \<^verbatim>\<open>undefined\<close>/\<^verbatim>\<open>null\<close> is falsy when it is absent or empty.\<close>

definition falsy :: "string option \<Rightarrow> bool" where
  "falsy v = (case v of None \<Rightarrow> True | Some s \<Rightarrow> s = [])"

text \<open>The decimal rendering of an integer, as a template literal prints it.\<close>

fun digits :: "nat \<Rightarrow> string" where
  "digits n =
     (if n < 10 then [char_of (48 + n)] else digits (n div 10) @ [char_of (48 + n mod 10)])"

declare digits.simps [simp del]

definition numberToString :: "int \<Rightarrow> string" where
  "numberToString i = (if i < 0 then CHR ''-'' # digits (nat (- i)) else digits (nat i))"

text \<open>\<^verbatim>\<open>Math.ceil(x / d)\<close> for an integer \<open>x\<close> and a positive integer \<open>d\<close>.\<close>

definition ceilDiv :: "int \<Rightarrow> int \<Rightarrow> int" where
  "ceilDiv x d = - ((- x) div d)"

section \<open>Errors (src/lib/errors.ts)\<close>

datatype error_class = AuthErrorClass | RateLimitErrorClass

record AppError =
  cls :: error_class
  message :: string
  code :: string
  statusCode :: nat
  isOperational :: bool
  retryAfter :: "int option"

text \<open>
  \<^verbatim>\<open>new AuthError(message, code)\<close> and \<^verbatim>\<open>new RateLimitError(message, retryAfter)\<close>: the
  constructors pass status 401 and 429 to \<^verbatim>\<open>AppError\<close>, whose \<^verbatim>\<open>isOperational\<close>
  defaults to true; \<^verbatim>\<open>RateLimitError\<close> fixes its code.
\<close>

definition AuthError :: "string \<Rightarrow> string \<Rightarrow> AppError" where
  "AuthError msg c =
     \<lparr>cls = AuthErrorClass, message = msg, code = c, statusCode = 401,
      isOperational = True, retryAfter = None\<rparr>"

definition RateLimitError :: "string \<Rightarrow> int option \<Rightarrow> AppError" where
  "RateLimitError msg after =
     \<lparr>cls = RateLimitErrorClass, message = msg, code = ''RATE_LIMIT_EXCEEDED'', statusCode = 429,
      isOperational = True, retryAfter = after\<rparr>"

text \<open>The UTF-8 bytes of the letters \<open>c-cedilla\<close>, \<open>s-cedilla\<close>, \<open>dotless i\<close> and \<open>C-cedilla\<close>.\<close>

definition c_cedilla :: string where "c_cedilla = [CHR 0xC3, CHR 0xA7]"
definition s_cedilla :: string where "s_cedilla = [CHR 0xC5, CHR 0x9F]"
definition dotless_i :: string where "dotless_i = [CHR 0xC4, CHR 0xB1]"
definition C_cedilla :: string where "C_cedilla = [CHR 0xC3, CHR 0x87]"

text \<open>The three messages thrown by \<^verbatim>\<open>authorize\<close>.\<close>

definition msg_missing_credentials :: string where
  "msg_missing_credentials = ''Email ve '' @ s_cedilla @ ''ifre gereklidir''"

definition msg_invalid_credentials :: string where
  "msg_invalid_credentials = ''Ge'' @ c_cedilla @ ''ersiz email veya '' @ s_cedilla @ ''ifre''"

definition msg_rate_limited :: "int \<Rightarrow> string" where
  "msg_rate_limited remainingMinutes =
     C_cedilla @ ''ok fazla ba'' @ s_cedilla @ ''ar'' @ dotless_i @ ''s'' @ dotless_i @ ''z giri''
       @ s_cedilla @ '' denemesi. '' @ numberToString remainingMinutes
       @ '' dakika sonra tekrar deneyin.''"

section \<open>The authentication event log (src/lib/auth-logger.ts)\<close>

datatype AuthEventType =
    LOGIN_SUCCESS | LOGIN_FAILED | LOGIN_RATE_LIMITED | LOGOUT
  | ACCOUNT_CREATED | ACCOUNT_DELETED
  | EMAIL_VERIFIED | EMAIL_VERIFICATION_SENT
  | PASSWORD_CHANGED | PASSWORD_CHANGE_FAILED | PASSWORD_RESET_REQUESTED
  | PASSWORD_RESET_SUCCESS | PASSWORD_RESET_FAILED
  | SUSPICIOUS_ACTIVITY | SESSION_INVALIDATED

text \<open>The values the program puts into \<^verbatim>\<open>metadata\<close>: strings and optional numbers.\<close>

datatype meta_value = MString string | MNumber int | MUndefined

record AuthLogEvent =
  etype :: AuthEventType
  email :: "string option"
  userId :: "string option"
  ip :: "string option"
  userAgent :: "string option"
  metadata :: "(string \<times> meta_value) list option"

record AuthLogEntry = AuthLogEvent +
  timestamp :: millis
  environment :: string

definition MAX_LOG_ENTRIES :: nat where
  "MAX_LOG_ENTRIES = 10000"

text \<open>
  \<^verbatim>\<open>logAuthEvent\<close>: the entry is pushed and, when the buffer has grown beyond
  \<open>MAX_LOG_ENTRIES\<close>, the oldest one is shifted out. \<open>nodeEnv\<close> is
  \<^verbatim>\<open>process.env.NODE_ENV\<close>. The console output of the development mode changes no state,
  and \<^verbatim>\<open>sendToLoggingService\<close> has an empty body.
\<close>

definition logAuthEvent :: "string option \<Rightarrow> millis \<Rightarrow> AuthLogEvent \<Rightarrow> AuthLogEntry list \<Rightarrow> AuthLogEntry list" where
  "logAuthEvent nodeEnv now event logStore =
     (let entry = \<lparr>etype = etype event, email = email event, userId = userId event,
                   ip = ip event, userAgent = userAgent event, metadata = metadata event,
                   timestamp = now,
                   environment = (if falsy nodeEnv then ''development'' else the nodeEnv)\<rparr>;
          pushed = logStore @ [entry]
      in if length pushed > MAX_LOG_ENTRIES then tl pushed else pushed)"

record SuspiciousResult =
  suspicious :: bool
  reason :: "string option"

text \<open>
  \<^verbatim>\<open>detectSuspiciousActivity\<close>. \<^verbatim>\<open>new Set(failedLogins.map((e) => e.ip).filter(Boolean))\<close>
  keeps the addresses that are present and not empty, without repetition; its size is the
  length of the list without duplicates.
\<close>

definition detectSuspiciousActivity :: "string \<Rightarrow> millis \<Rightarrow> AuthLogEntry list \<Rightarrow> SuspiciousResult" where
  "detectSuspiciousActivity em now logStore =
     (let recentEvents =
            filter (\<lambda>entry. email entry = Some em \<and> timestamp entry > now - 60 * 60 * 1000) logStore;
          failedLogins = filter (\<lambda>e. etype e = LOGIN_FAILED) recentEvents;
          uniqueIps = remdups (filter (\<lambda>a. \<not> falsy a) (map ip failedLogins))
      in if length failedLogins \<ge> 10 \<and> length uniqueIps \<ge> 3 then
           \<lparr>suspicious = True, reason = Some ''Multiple failed logins from different IPs''\<rparr>
         else
           let resetRequests = filter (\<lambda>e. etype e = PASSWORD_RESET_REQUESTED) recentEvents
           in if length resetRequests \<ge> 5 then
                \<lparr>suspicious = True, reason = Some ''Excessive password reset requests''\<rparr>
              else \<lparr>suspicious = False, reason = None\<rparr>)"

text \<open>\<^verbatim>\<open>Array.prototype.findIndex\<close>: the index of the first match, or \<open>-1\<close>.\<close>

fun findIndex :: "('a \<Rightarrow> bool) \<Rightarrow> 'a list \<Rightarrow> int" where
  "findIndex P [] = - 1"
| "findIndex P (x # xs) =
     (if P x then 0 else (let i = findIndex P xs in if i < 0 then - 1 else i + 1))"

text \<open>
  \<^verbatim>\<open>cleanupOldLogs\<close>: the buffer is cut only when \<^verbatim>\<open>index > 0\<close>; the number returned is
  the difference of the lengths before and after.
\<close>

definition cleanupOldLogs :: "millis \<Rightarrow> millis \<Rightarrow> AuthLogEntry list \<Rightarrow> int \<times> AuthLogEntry list" where
  "cleanupOldLogs now maxAgeMs logStore =
     (let cutoff = now - maxAgeMs;
          initialLength = int (length logStore);
          index = findIndex (\<lambda>entry. timestamp entry > cutoff) logStore;
          logStore' = (if index > 0 then drop (nat index) logStore else logStore)
      in (initialLength - int (length logStore'), logStore'))"

definition DEFAULT_MAX_AGE_MS :: millis where
  "DEFAULT_MAX_AGE_MS = 30 * 24 * 60 * 60 * 1000"

section \<open>The database tables used by the authentication code\<close>

text \<open>
  The module \<^verbatim>\<open>./db\<close> exports the Prisma client of the application (the client that
  \<^verbatim>\<open>prisma/seed.ts\<close> constructs). The two tables the authentication code touches are
  modelled as lists of rows in insertion order, with the columns of the migration that the
  code reads or writes; \<open>email\<close> is unique among the users and \<open>token\<close> among the tokens.
  The client's operations follow its contract: \<^verbatim>\<open>findUnique\<close> returns the row or
  \<^verbatim>\<open>null\<close>; \<^verbatim>\<open>create\<close> fails when a unique index would be violated (error code
  \<^verbatim>\<open>P2002\<close>); \<^verbatim>\<open>update\<close> and \<^verbatim>\<open>delete\<close> fail when no row matches (error code
  \<^verbatim>\<open>P2025\<close>); \<^verbatim>\<open>deleteMany\<close> removes every matching row. These are the two failures
  that \<^verbatim>\<open>src/lib/api-utils.ts\<close> recognises by their codes. A failure is thrown to the
  caller, and what the caller had written before stays written (the code opens no
  transaction).
\<close>

datatype db_error = UniqueConstraintFailed | RecordNotFound

record User =
  uid :: string
  uemail :: string
  uname :: "string option"
  password :: "string option"
  image :: "string option"
  emailVerified :: "millis option"
  createdAt :: millis

record VerificationToken =
  vt_identifier :: string
  token :: string
  expires :: millis

text \<open>\<^verbatim>\<open>db.user.findUnique({ where: { email } })\<close>.\<close>

definition user_findUnique :: "string \<Rightarrow> User list \<Rightarrow> User option" where
  "user_findUnique em us = find (\<lambda>u. uemail u = em) us"

text \<open>\<^verbatim>\<open>db.user.update({ where: { email }, data })\<close>, \<open>f\<close> writing the data.\<close>

definition user_update :: "string \<Rightarrow> (User \<Rightarrow> User) \<Rightarrow> User list \<Rightarrow> db_error + User list" where
  "user_update em f us =
     (case find (\<lambda>u. uemail u = em) us of
        None \<Rightarrow> Inl RecordNotFound
      | Some _ \<Rightarrow> Inr (map (\<lambda>u. if uemail u = em then f u else u) us))"

text \<open>\<^verbatim>\<open>db.verificationToken.findUnique({ where: { token } })\<close>.\<close>

definition vt_findUnique :: "string \<Rightarrow> VerificationToken list \<Rightarrow> VerificationToken option" where
  "vt_findUnique tok rows = find (\<lambda>r. token r = tok) rows"

text \<open>\<^verbatim>\<open>db.verificationToken.deleteMany({ where: { identifier } })\<close>.\<close>

definition vt_deleteMany :: "string \<Rightarrow> VerificationToken list \<Rightarrow> VerificationToken list" where
  "vt_deleteMany ident rows = filter (\<lambda>r. vt_identifier r \<noteq> ident) rows"

text \<open>
  \<^verbatim>\<open>db.verificationToken.create({ data })\<close>: the table has a unique index on \<open>token\<close> (and
  one on the pair of \<open>identifier\<close> and \<open>token\<close>, which the first implies).
\<close>

definition vt_create :: "VerificationToken \<Rightarrow> VerificationToken list \<Rightarrow> db_error + VerificationToken list" where
  "vt_create row rows =
     (if token row \<in> set (map token rows) then Inl UniqueConstraintFailed
      else Inr (rows @ [row]))"

text \<open>\<^verbatim>\<open>db.verificationToken.delete({ where: { token } })\<close>.\<close>

definition vt_delete :: "string \<Rightarrow> VerificationToken list \<Rightarrow> db_error + VerificationToken list" where
  "vt_delete tok rows =
     (case find (\<lambda>r. token r = tok) rows of
        None \<Rightarrow> Inl RecordNotFound
      | Some _ \<Rightarrow> Inr (filter (\<lambda>r. token r \<noteq> tok) rows))"

section \<open>The state of the authentication core\<close>

text \<open>
  The module-level rate-limit map and log buffer, and the two tables. \<open>environment_fns\<close>
  holds what the code takes from outside: \<^verbatim>\<open>process.env.NODE_ENV\<close> and the two functions
  of \<^verbatim>\<open>bcryptjs\<close> (\<^verbatim>\<open>compare(password, hash)\<close> and \<^verbatim>\<open>hash(password, rounds)\<close>, the
  salt it draws being part of the function given).
\<close>

record state =
  rateLimitStore :: rl_store
  logStore :: "AuthLogEntry list"
  users :: "User list"
  verificationTokens :: "VerificationToken list"

record environment_fns =
  nodeEnv :: "string option"
  bcrypt_compare :: "string \<Rightarrow> string \<Rightarrow> bool"
  bcrypt_hash :: "string \<Rightarrow> nat \<Rightarrow> string"

datatype thrown = App AppError | Prisma db_error

definition log_event :: "environment_fns \<Rightarrow> millis \<Rightarrow> AuthLogEvent \<Rightarrow> state \<Rightarrow> state" where
  "log_event env now event st = st\<lparr>logStore := logAuthEvent (nodeEnv env) now event (logStore st)\<rparr>"

section \<open>Login (src/lib/auth.ts, the credentials provider)\<close>

definition MAX_LOGIN_ATTEMPTS :: int where
  "MAX_LOGIN_ATTEMPTS = 5"

definition LOCKOUT_DURATION_MINUTES :: int where
  "LOCKOUT_DURATION_MINUTES = 15"

definition BCRYPT_ROUNDS :: nat where
  "BCRYPT_ROUNDS = 12"

definition login_policy :: RateLimitOptions where
  "login_policy = \<lparr>maxAttempts = MAX_LOGIN_ATTEMPTS, windowMs = LOCKOUT_DURATION_MINUTES * 60 * 1000\<rparr>"

text \<open>
  The request as \<^verbatim>\<open>getClientIp\<close> reads it: the \<^verbatim>\<open>x-forwarded-for\<close> header (a string or
  an array of strings) and the socket's remote address, each of which may be missing.
\<close>

datatype header_value = HString string | HArray "string list"

record request =
  x_forwarded_for :: "header_value option"
  remoteAddress :: "string option"

definition remoteOrUnknown :: "request option \<Rightarrow> string option" where
  "remoteOrUnknown req =
     (case req of
        None \<Rightarrow> Some ''unknown''
      | Some r \<Rightarrow> if falsy (remoteAddress r) then Some ''unknown'' else remoteAddress r)"

definition getClientIp :: "request option \<Rightarrow> string option" where
  "getClientIp req =
     (case (case req of None \<Rightarrow> None | Some r \<Rightarrow> x_forwarded_for r) of
        None \<Rightarrow> remoteOrUnknown req
      | Some (HString s) \<Rightarrow>
          if s = [] then remoteOrUnknown req else Some (trim (firstSegment s))
      | Some (HArray xs) \<Rightarrow>
          (case xs of [] \<Rightarrow> None | x # _ \<Rightarrow> Some (trim (firstSegment x))))"

record credentials =
  cred_email :: "string option"
  cred_password :: "string option"

text \<open>The object \<^verbatim>\<open>authorize\<close> returns on success.\<close>

record authorized_user =
  au_id :: string
  au_email :: string
  au_name :: "string option"
  au_image :: "string option"
  au_emailVerified :: "millis option"

definition auth_key :: "string \<Rightarrow> string" where
  "auth_key em = ''auth:'' @ em"

definition normalizeEmail :: "string \<Rightarrow> string" where
  "normalizeEmail e = trim (toLowerCase e)"

definition missing_credentials :: "credentials option \<Rightarrow> bool" where
  "missing_credentials creds =
     (case creds of None \<Rightarrow> True | Some c \<Rightarrow> falsy (cred_email c) \<or> falsy (cred_password c))"

definition login_failed_event :: "string \<Rightarrow> string option \<Rightarrow> string option \<Rightarrow> string \<Rightarrow> AuthLogEvent" where
  "login_failed_event em clientIp user_id why =
     \<lparr>etype = LOGIN_FAILED, email = Some em, userId = user_id, ip = clientIp,
      userAgent = None, metadata = Some [(''reason'', MString why)]\<rparr>"

text \<open>
  \<^verbatim>\<open>authorize(credentials, req)\<close>, in the order of the source: missing fields, the
  normalised email and the client address, the rate-limit check (which writes the map), the
  rejection of a rate-limited call, the user lookup, the two credential rejections, and the
  success path that resets the rate-limit entry. A throw is \<open>Inl\<close>.
\<close>

definition authorize :: "environment_fns \<Rightarrow> credentials option \<Rightarrow> request option \<Rightarrow> millis \<Rightarrow> state \<Rightarrow> (thrown + authorized_user) \<times> state" where
  "authorize env creds req now st =
     (if missing_credentials creds then
        (Inl (App (AuthError msg_missing_credentials ''MISSING_CREDENTIALS'')), st)
      else
        let em = normalizeEmail (the (cred_email (the creds)));
            pw = the (cred_password (the creds));
            clientIp = getClientIp req;
            rateLimitResult = fst (check (rateLimitStore st) (auth_key em) login_policy now);
            st1 = st\<lparr>rateLimitStore := snd (check (rateLimitStore st) (auth_key em) login_policy now)\<rparr>
        in if \<not> success rateLimitResult then
             (let st2 = log_event env now
                    \<lparr>etype = LOGIN_RATE_LIMITED, email = Some em, userId = None, ip = clientIp,
                     userAgent = None,
                     metadata = Some [(''remainingMs'',
                        (case remainingMs rateLimitResult of None \<Rightarrow> MUndefined | Some v \<Rightarrow> MNumber v))]\<rparr>
                    st1;
                  remainingMinutes =
                    ceilDiv (case remainingMs rateLimitResult of None \<Rightarrow> 0 | Some v \<Rightarrow> v) 60000
              in (Inl (App (RateLimitError (msg_rate_limited remainingMinutes) None)), st2))
           else
             (case user_findUnique em (users st1) of
                None \<Rightarrow>
                  (Inl (App (AuthError msg_invalid_credentials ''INVALID_CREDENTIALS'')),
                   log_event env now (login_failed_event em clientIp None ''USER_NOT_FOUND'') st1)
              | Some user \<Rightarrow>
                  if falsy (password user) then
                    (Inl (App (AuthError msg_invalid_credentials ''INVALID_CREDENTIALS'')),
                     log_event env now (login_failed_event em clientIp None ''USER_NOT_FOUND'') st1)
                  else if \<not> bcrypt_compare env pw (the (password user)) then
                    (Inl (App (AuthError msg_invalid_credentials ''INVALID_CREDENTIALS'')),
                     log_event env now
                       (login_failed_event em clientIp (Some (uid user)) ''INVALID_PASSWORD'') st1)
                  else
                    (let st2 = st1\<lparr>rateLimitStore := reset (rateLimitStore st1) (auth_key em)\<rparr>;
                         st3 = log_event env now
                           \<lparr>etype = LOGIN_SUCCESS, email = Some em, userId = Some (uid user),
                            ip = clientIp, userAgent = None, metadata = None\<rparr>
                           st2
                     in (Inr \<lparr>au_id = uid user, au_email = uemail user, au_name = uname user,
                              au_image = image user, au_emailVerified = emailVerified user\<rparr>,
                         st3))))"

section \<open>Verification and password-reset tokens (src/lib/auth.ts)\<close>

definition token_chars :: string where
  "token_chars = ''ABCDEFGHIJKLMNOPQRSTUVWXYZabcdefghijklmnopqrstuvwxyz0123456789''"

text \<open>
  \<^verbatim>\<open>generateToken(length)\<close>. The values that \<^verbatim>\<open>crypto.getRandomValues\<close> writes into the
  array are the argument \<open>randomValues\<close>, read by index.
\<close>

definition generateToken :: "nat \<Rightarrow> (nat \<Rightarrow> nat) \<Rightarrow> string" where
  "generateToken len randomValues =
     map (\<lambda>i. token_chars ! (randomValues i mod length token_chars)) [0..<len]"

definition VERIFICATION_TTL_MS :: millis where
  "VERIFICATION_TTL_MS = 24 * 60 * 60 * 1000"

definition RESET_TTL_MS :: millis where
  "RESET_TTL_MS = 60 * 60 * 1000"

definition reset_prefix :: string where
  "reset_prefix = ''reset:''"

text \<open>\<^verbatim>\<open>generateVerificationToken(email)\<close>: delete the identifier's rows, then create.\<close>

definition generateVerificationToken :: "(nat \<Rightarrow> nat) \<Rightarrow> millis \<Rightarrow> string \<Rightarrow> state \<Rightarrow> (thrown + string) \<times> state" where
  "generateVerificationToken randomValues now em st =
     (let tok = generateToken 64 randomValues;
          exp = now + VERIFICATION_TTL_MS;
          st1 = st\<lparr>verificationTokens := vt_deleteMany em (verificationTokens st)\<rparr>
      in case vt_create \<lparr>vt_identifier = em, token = tok, expires = exp\<rparr> (verificationTokens st1) of
           Inl e \<Rightarrow> (Inl (Prisma e), st1)
         | Inr rows \<Rightarrow> (Inr tok, st1\<lparr>verificationTokens := rows\<rparr>))"

text \<open>\<^verbatim>\<open>verifyEmailToken(token)\<close>; the result \<open>None\<close> is \<^verbatim>\<open>null\<close>.\<close>

definition verifyEmailToken :: "environment_fns \<Rightarrow> millis \<Rightarrow> string \<Rightarrow> state \<Rightarrow> (thrown + string option) \<times> state" where
  "verifyEmailToken env now tok st =
     (case vt_findUnique tok (verificationTokens st) of
        None \<Rightarrow> (Inr None, st)
      | Some verificationToken \<Rightarrow>
          if expires verificationToken < now then
            (case vt_delete tok (verificationTokens st) of
               Inl e \<Rightarrow> (Inl (Prisma e), st)
             | Inr rows \<Rightarrow> (Inr None, st\<lparr>verificationTokens := rows\<rparr>))
          else
            let em = vt_identifier verificationToken
            in case user_update em (\<lambda>u. u\<lparr>emailVerified := Some now\<rparr>) (users st) of
                 Inl e \<Rightarrow> (Inl (Prisma e), st)
               | Inr us \<Rightarrow>
                   let st1 = st\<lparr>users := us\<rparr>
                   in case vt_delete tok (verificationTokens st1) of
                        Inl e \<Rightarrow> (Inl (Prisma e), st1)
                      | Inr rows \<Rightarrow>
                          (Inr (Some em),
                           log_event env now
                             \<lparr>etype = EMAIL_VERIFIED, email = Some em, userId = None, ip = None,
                              userAgent = None, metadata = None\<rparr>
                             (st1\<lparr>verificationTokens := rows\<rparr>)))"

text \<open>\<^verbatim>\<open>generatePasswordResetToken(email)\<close>; \<open>None\<close> is \<^verbatim>\<open>null\<close> (no such user).\<close>

definition generatePasswordResetToken :: "environment_fns \<Rightarrow> (nat \<Rightarrow> nat) \<Rightarrow> millis \<Rightarrow> string \<Rightarrow> state \<Rightarrow> (thrown + string option) \<times> state" where
  "generatePasswordResetToken env randomValues now em st =
     (case user_findUnique em (users st) of
        None \<Rightarrow> (Inr None, st)
      | Some user \<Rightarrow>
          let tok = generateToken 64 randomValues;
              exp = now + RESET_TTL_MS;
              st1 = st\<lparr>verificationTokens := vt_deleteMany (reset_prefix @ em) (verificationTokens st)\<rparr>
          in case vt_create \<lparr>vt_identifier = reset_prefix @ em, token = tok, expires = exp\<rparr>
                    (verificationTokens st1) of
               Inl e \<Rightarrow> (Inl (Prisma e), st1)
             | Inr rows \<Rightarrow>
                 (Inr (Some tok),
                  log_event env now
                    \<lparr>etype = PASSWORD_RESET_REQUESTED, email = Some em, userId = Some (uid user),
                     ip = None, userAgent = None, metadata = None\<rparr>
                    (st1\<lparr>verificationTokens := rows\<rparr>)))"

text \<open>\<^verbatim>\<open>resetPasswordWithToken(token, newPassword)\<close>.\<close>

definition resetPasswordWithToken :: "environment_fns \<Rightarrow> millis \<Rightarrow> string \<Rightarrow> string \<Rightarrow> state \<Rightarrow> (thrown + bool) \<times> state" where
  "resetPasswordWithToken env now tok newPassword st =
     (case vt_findUnique tok (verificationTokens st) of
        None \<Rightarrow> (Inr False, st)
      | Some verificationToken \<Rightarrow>
          if \<not> startsWith (vt_identifier verificationToken) reset_prefix then (Inr False, st)
          else if expires verificationToken < now then
            (case vt_delete tok (verificationTokens st) of
               Inl e \<Rightarrow> (Inl (Prisma e), st)
             | Inr rows \<Rightarrow> (Inr False, st\<lparr>verificationTokens := rows\<rparr>))
          else
            let em = replace reset_prefix [] (vt_identifier verificationToken);
                hashedPassword = bcrypt_hash env newPassword BCRYPT_ROUNDS
            in case user_update em (\<lambda>u. u\<lparr>password := Some hashedPassword\<rparr>) (users st) of
                 Inl e \<Rightarrow> (Inl (Prisma e), st)
               | Inr us \<Rightarrow>
                   let st1 = st\<lparr>users := us\<rparr>
                   in case vt_delete tok (verificationTokens st1) of
                        Inl e \<Rightarrow> (Inl (Prisma e), st1)
                      | Inr rows \<Rightarrow>
                          let st2 = st1\<lparr>verificationTokens := rows\<rparr>;
                              st3 = st2\<lparr>rateLimitStore := reset (rateLimitStore st2) (auth_key em)\<rparr>
                          in (Inr True,
                              log_event env now
                                \<lparr>etype = PASSWORD_RESET_SUCCESS, email = Some em, userId = None,
                                 ip = None, userAgent = None, metadata = None\<rparr>
                                st3))"

section \<open>Notions used to state the properties\<close>

text \<open>
  The events of the trailing hour for an email, counted the way the specification words
  them: the failed logins, the distinct addresses they come from, the reset requests.
\<close>

definition in_trailing_hour :: "string \<Rightarrow> millis \<Rightarrow> AuthLogEntry \<Rightarrow> bool" where
  "in_trailing_hour em now e = (email e = Some em \<and> now - 3600000 < timestamp e)"

definition failed_login_count :: "string \<Rightarrow> millis \<Rightarrow> AuthLogEntry list \<Rightarrow> nat" where
  "failed_login_count em now logs =
     length (filter (\<lambda>e. in_trailing_hour em now e \<and> etype e = LOGIN_FAILED) logs)"

definition failed_login_ips :: "string \<Rightarrow> millis \<Rightarrow> AuthLogEntry list \<Rightarrow> string set" where
  "failed_login_ips em now logs =
     {a. a \<noteq> [] \<and> (\<exists>e\<in>set logs. in_trailing_hour em now e \<and> etype e = LOGIN_FAILED \<and> ip e = Some a)}"

definition reset_request_count :: "string \<Rightarrow> millis \<Rightarrow> AuthLogEntry list \<Rightarrow> nat" where
  "reset_request_count em now logs =
     length (filter (\<lambda>e. in_trailing_hour em now e \<and> etype e = PASSWORD_RESET_REQUESTED) logs)"

text \<open>The two conditions on the token table: the unique index, and one row per identifier.\<close>

definition tokens_unique :: "VerificationToken list \<Rightarrow> bool" where
  "tokens_unique rows = distinct (map token rows)"

definition one_token_per_identifier :: "VerificationToken list \<Rightarrow> bool" where
  "one_token_per_identifier rows = distinct (map vt_identifier rows)"

text \<open>
  The four operations of the program that write the token table, and a run of them in any
  order from a state; an operation that throws leaves the state it had reached.
\<close>

datatype token_op =
    IssueVerification "nat \<Rightarrow> nat" millis string
  | IssueReset "nat \<Rightarrow> nat" millis string
  | VerifyEmail millis string
  | ResetPassword millis string string

fun apply_token_op :: "environment_fns \<Rightarrow> token_op \<Rightarrow> state \<Rightarrow> state" where
  "apply_token_op env (IssueVerification rnd now em) st = snd (generateVerificationToken rnd now em st)"
| "apply_token_op env (IssueReset rnd now em) st = snd (generatePasswordResetToken env rnd now em st)"
| "apply_token_op env (VerifyEmail now tok) st = snd (verifyEmailToken env now tok st)"
| "apply_token_op env (ResetPassword now tok pw) st = snd (resetPasswordWithToken env now tok pw st)"

fun run_token_ops :: "environment_fns \<Rightarrow> token_op list \<Rightarrow> state \<Rightarrow> state" where
  "run_token_ops env [] st = st"
| "run_token_ops env (op # ops) st = run_token_ops env ops (apply_token_op env op st)"

text \<open>Data for the concrete instances of the theorems.\<close>

definition example_env :: environment_fns where
  "example_env =
     \<lparr>nodeEnv = None, bcrypt_compare = (\<lambda>p h. h = ''hash:'' @ p),
      bcrypt_hash = (\<lambda>p n. ''hash:'' @ p)\<rparr>"

definition example_user :: User where
  "example_user =
     \<lparr>uid = ''u1'', uemail = ''demo@x.com'', uname = Some ''Demo'',
      password = Some ''hash:Abcdefg1'', image = None, emailVerified = None, createdAt = 0\<rparr>"

definition example_state :: state where
  "example_state =
     \<lparr>rateLimitStore = Map.empty, logStore = [], users = [example_user], verificationTokens = []\<rparr>"

definition example_tokens :: "millis \<Rightarrow> VerificationToken list" where
  "example_tokens exp =
     [\<lparr>vt_identifier = ''demo@x.com'', token = ''V'', expires = exp\<rparr>,
      \<lparr>vt_identifier = ''reset:demo@x.com'', token = ''R'', expires = exp\<rparr>]"

definition example_random :: "nat \<Rightarrow> nat" where
  "example_random i = 7 * i + 3"

definition other_random :: "nat \<Rightarrow> nat" where
  "other_random i = 5 * i + 1"

text \<open>
  Words for the login claims: the normalised email of an attempt; an attempt that gets past
  the missing-fields test and the rate limiter; an attempt whose email has an account with a
  password hash that the password does not match; an attempt whose email has no account, or
  an account without a password hash; the error both rejections throw.
\<close>

definition login_email :: "credentials option \<Rightarrow> string" where
  "login_email creds = normalizeEmail (the (cred_email (the creds)))"

definition rate_check_passes :: "credentials option \<Rightarrow> millis \<Rightarrow> state \<Rightarrow> bool" where
  "rate_check_passes creds now st =
     (\<not> missing_credentials creds
      \<and> success (fst (check (rateLimitStore st) (auth_key (login_email creds)) login_policy now)))"

definition wrong_password :: "environment_fns \<Rightarrow> credentials option \<Rightarrow> User list \<Rightarrow> bool" where
  "wrong_password env creds us =
     (\<not> missing_credentials creds
      \<and> (case user_findUnique (login_email creds) us of
            None \<Rightarrow> False
          | Some u \<Rightarrow>
              \<not> falsy (password u)
              \<and> \<not> bcrypt_compare env (the (cred_password (the creds))) (the (password u))))"

definition no_usable_account :: "credentials option \<Rightarrow> User list \<Rightarrow> bool" where
  "no_usable_account creds us =
     (case user_findUnique (login_email creds) us of None \<Rightarrow> True | Some u \<Rightarrow> falsy (password u))"

definition invalid_credentials_error :: thrown where
  "invalid_credentials_error = App (AuthError msg_invalid_credentials ''INVALID_CREDENTIALS'')"

text \<open>A run of consecutive \<open>authorize\<close> calls, each with its credentials, request and clock.\<close>

fun authorize_run :: "environment_fns \<Rightarrow> (credentials option \<times> request option \<times> millis) list \<Rightarrow> state \<Rightarrow> (thrown + authorized_user) list \<times> state" where
  "authorize_run env [] st = ([], st)"
| "authorize_run env ((c, r, t) # rest) st =
     (fst (authorize env c r t st) # fst (authorize_run env rest (snd (authorize env c r t st))),
      snd (authorize_run env rest (snd (authorize env c r t st))))"

definition example_login :: "string \<Rightarrow> credentials option" where
  "example_login pw = Some \<lparr>cred_email = Some '' Demo@X.com'', cred_password = Some pw\<rparr>"

section \<open>Properties of the rate limiter\<close>

lemma check_opens_window:
  "opens_window store key options now \<Longrightarrow>
   check store key options now =
     (\<lparr>success = True, remaining = maxAttempts options - 1, remainingMs = None\<rparr>,
      store(key \<mapsto> fresh_entry now))"
  by (simp add: check_def opens_window_def split: option.splits)

lemma check_in_window:
  assumes "store key = Some entry" and "now - firstAttempt entry \<le> windowMs options"
  shows "check store key options now =
     (if count entry + 1 > maxAttempts options then
        \<lparr>success = False, remaining = 0,
          remainingMs = Some (max 0 (windowMs options - (now - firstAttempt entry)))\<rparr>
      else
        \<lparr>success = True, remaining = maxAttempts options - (count entry + 1), remainingMs = None\<rparr>,
      store(key \<mapsto> entry\<lparr>count := count entry + 1, lastAttempt := now\<rparr>))"
  using assms by (simp add: check_def Let_def)

lemma cleanup_keeps:
  "store key = Some entry \<Longrightarrow> now - lastAttempt entry \<le> CLEANUP_MAX_AGE \<Longrightarrow>
   cleanup store now key = Some entry"
  by (simp add: cleanup_def)

lemma cleanup_drops:
  "store key = Some entry \<Longrightarrow> now - lastAttempt entry > CLEANUP_MAX_AGE \<Longrightarrow>
   cleanup store now key = None"
  by (simp add: cleanup_def)

lemma limiter_run_append:
  "limiter_run store key options (xs @ ys) =
     (fst (limiter_run store key options xs)
        @ fst (limiter_run (snd (limiter_run store key options xs)) key options ys),
      snd (limiter_run (snd (limiter_run store key options xs)) key options ys))"
  by (induction store key options xs rule: limiter_run.induct) simp_all

lemma ticks_early_append:
  "ticks_early l (xs @ ys) \<Longrightarrow> ticks_early l xs"
  by (induction l xs rule: ticks_early.induct) simp_all

lemma check_times_simps [simp]:
  "check_times [] = []"
  "check_times (CheckCall t # evs) = t # check_times evs"
  "check_times (CleanupTick t # evs) = check_times evs"
  "check_times (xs @ ys) = check_times xs @ check_times ys"
  by (simp_all add: check_times_def)

text \<open>
  Inside an active window, with no tick late enough to delete the entry, every check of a
  run succeeds as long as the count stays within \<open>maxAttempts\<close>; the entry stays, its
  window's start is kept and its count grows by one per check.
\<close>

lemma limiter_run_in_window:
  assumes "store key = Some entry"
    and "\<forall>t\<in>set (check_times evs). t - firstAttempt entry \<le> windowMs options"
    and "count entry + int (length (check_times evs)) \<le> maxAttempts options"
    and "ticks_early (lastAttempt entry) evs"
  shows "list_all success (fst (limiter_run store key options evs))
       \<and> length (fst (limiter_run store key options evs)) = length (check_times evs)
       \<and> (\<exists>e. snd (limiter_run store key options evs) key = Some e
              \<and> count e = count entry + int (length (check_times evs))
              \<and> firstAttempt e = firstAttempt entry)"
  using assms
proof (induction evs arbitrary: store entry)
  case Nil
  then show ?case by simp
next
  case (Cons ev evs)
  show ?case
  proof (cases ev)
    case (CheckCall t)
    let ?entry' = "entry\<lparr>count := count entry + 1, lastAttempt := t\<rparr>"
    let ?store' = "store(key \<mapsto> ?entry')"
    from Cons.prems(2) CheckCall have in_w: "t - firstAttempt entry \<le> windowMs options" by simp
    from Cons.prems(3) CheckCall have le: "count entry + 1 \<le> maxAttempts options" by simp
    have step: "check store key options t =
        (\<lparr>success = True, remaining = maxAttempts options - (count entry + 1), remainingMs = None\<rparr>,
         ?store')"
      using check_in_window [of store key entry t options] Cons.prems(1) in_w le by simp
    have "?store' key = Some ?entry'" by simp
    moreover have "\<forall>u\<in>set (check_times evs). u - firstAttempt ?entry' \<le> windowMs options"
      using Cons.prems(2) CheckCall by simp
    moreover have "count ?entry' + int (length (check_times evs)) \<le> maxAttempts options"
      using Cons.prems(3) CheckCall by simp
    moreover have "ticks_early (lastAttempt ?entry') evs"
      using Cons.prems(4) CheckCall by simp
    ultimately have
      "list_all success (fst (limiter_run ?store' key options evs))
         \<and> length (fst (limiter_run ?store' key options evs)) = length (check_times evs)
         \<and> (\<exists>e. snd (limiter_run ?store' key options evs) key = Some e
                \<and> count e = count ?entry' + int (length (check_times evs))
                \<and> firstAttempt e = firstAttempt ?entry')"
      by (rule Cons.IH)
    then show ?thesis
      by (auto simp: CheckCall step)
  next
    case (CleanupTick t)
    from Cons.prems(4) CleanupTick have early: "t - lastAttempt entry \<le> CLEANUP_MAX_AGE"
      and rest: "ticks_early (lastAttempt entry) evs"
      by simp_all
    have kept: "cleanup store t key = Some entry"
      using cleanup_keeps [of store key entry t] Cons.prems(1) early by simp
    have w: "\<forall>u\<in>set (check_times evs). u - firstAttempt entry \<le> windowMs options"
      using Cons.prems(2) CleanupTick by simp
    have c: "count entry + int (length (check_times evs)) \<le> maxAttempts options"
      using Cons.prems(3) CleanupTick by simp
    have
      "list_all success (fst (limiter_run (cleanup store t) key options evs))
         \<and> length (fst (limiter_run (cleanup store t) key options evs)) = length (check_times evs)
         \<and> (\<exists>e. snd (limiter_run (cleanup store t) key options evs) key = Some e
                \<and> count e = count entry + int (length (check_times evs))
                \<and> firstAttempt e = firstAttempt entry)"
      using kept w c rest by (rule Cons.IH)
    then show ?thesis
      by (simp add: CleanupTick)
  qed
qed

lemma limiter_window_run:
  assumes first: "opens_window store key options t0"
    and len: "int (length (check_times (CheckCall t0 # evs))) = maxAttempts options"
    and within: "\<forall>t\<in>set (check_times evs @ [tz]). t - t0 \<le> windowMs options"
    and early: "ticks_early t0 (evs @ [CheckCall tz])"
  shows "fst (limiter_run store key options (CheckCall t0 # evs @ [CheckCall tz])) =
           \<lparr>success = True, remaining = maxAttempts options - 1, remainingMs = None\<rparr>
             # fst (limiter_run (store(key \<mapsto> fresh_entry t0)) key options evs)
             @ [\<lparr>success = False, remaining = 0,
                 remainingMs = Some (windowMs options - (tz - t0))\<rparr>]"
    and "list_all success (fst (limiter_run (store(key \<mapsto> fresh_entry t0)) key options evs))"
    and "length (fst (limiter_run (store(key \<mapsto> fresh_entry t0)) key options evs))
           = length (check_times evs)"
proof -
  let ?s1 = "store(key \<mapsto> fresh_entry t0)"
  let ?s2 = "snd (limiter_run ?s1 key options evs)"
  have s1: "?s1 key = Some (fresh_entry t0)" by simp
  have w: "\<forall>t\<in>set (check_times evs). t - firstAttempt (fresh_entry t0) \<le> windowMs options"
    using within by (simp add: fresh_entry_def)
  have c: "count (fresh_entry t0) + int (length (check_times evs)) \<le> maxAttempts options"
    using len by (simp add: fresh_entry_def)
  have t: "ticks_early (lastAttempt (fresh_entry t0)) evs"
    using ticks_early_append [OF early] by (simp add: fresh_entry_def)
  from limiter_run_in_window [of ?s1 key "fresh_entry t0" evs options] s1 w c t
  obtain e where all_ok: "list_all success (fst (limiter_run ?s1 key options evs))"
    and n: "length (fst (limiter_run ?s1 key options evs)) = length (check_times evs)"
    and e: "?s2 key = Some e"
    and ce: "count e = count (fresh_entry t0) + int (length (check_times evs))"
    and fe: "firstAttempt e = firstAttempt (fresh_entry t0)"
    by blast
  from ce len have full: "count e = maxAttempts options" by (simp add: fresh_entry_def)
  from fe have start: "firstAttempt e = t0" by (simp add: fresh_entry_def)
  from within have tz_in: "tz - t0 \<le> windowMs options" by simp
  have last_call: "fst (check ?s2 key options tz) =
      \<lparr>success = False, remaining = 0, remainingMs = Some (windowMs options - (tz - t0))\<rparr>"
    using check_in_window [of ?s2 key e tz options] e full start tz_in
    by (simp add: max_def)
  have first_call: "check store key options t0 =
      (\<lparr>success = True, remaining = maxAttempts options - 1, remainingMs = None\<rparr>, ?s1)"
    by (rule check_opens_window [OF first])
  have "fst (limiter_run store key options (CheckCall t0 # evs @ [CheckCall tz])) =
          fst (check store key options t0)
            # fst (limiter_run (snd (check store key options t0)) key options evs)
            @ [fst (check (snd (limiter_run (snd (check store key options t0)) key options evs))
                      key options tz)]"
    by (simp add: limiter_run_append)
  then show "fst (limiter_run store key options (CheckCall t0 # evs @ [CheckCall tz])) =
           \<lparr>success = True, remaining = maxAttempts options - 1, remainingMs = None\<rparr>
             # fst (limiter_run ?s1 key options evs)
             @ [\<lparr>success = False, remaining = 0,
                 remainingMs = Some (windowMs options - (tz - t0))\<rparr>]"
    by (simp only: first_call fst_conv snd_conv last_call)
  show "list_all success (fst (limiter_run ?s1 key options evs))" by (rule all_ok)
  show "length (fst (limiter_run ?s1 key options evs)) = length (check_times evs)" by (rule n)
qed

lemma map_const_True:
  "list_all f xs \<Longrightarrow> map f xs = replicate (length xs) True"
  by (induction xs) simp_all

text \<open>
  When no event of a run comes before the first check or more than one hour after it, no
  tick is late: so it is on a clock that does not run backwards whenever the last call comes
  no more than one hour after the first, and in particular whenever \<open>windowMs\<close> is at most
  one hour.
\<close>

lemma ticks_early_within_hour:
  assumes "t0 \<le> l"
    and "\<forall>ev\<in>set evs. t0 \<le> event_time ev \<and> event_time ev - t0 \<le> CLEANUP_MAX_AGE"
  shows "ticks_early l evs"
  using assms
proof (induction l evs rule: ticks_early.induct)
  case (1 last_check)
  then show ?case by simp
next
  case (2 last_check t evs)
  then show ?case by simp
next
  case (3 last_check t evs)
  then show ?case by simp
qed

text \<open>
  C9. After \<open>reset key\<close>, whatever the store held before, the next \<open>check\<close> of that key
  succeeds with \<open>remaining = maxAttempts - 1\<close> and stores a fresh entry with count 1; its
  result and the entry it stores are those of a check of the key on the empty store, and no
  other key is touched.
\<close>

theorem C9_check_after_reset:
  "(reset store key) key = None
   \<and> check (reset store key) key options now =
       (\<lparr>success = True, remaining = maxAttempts options - 1, remainingMs = None\<rparr>,
        store(key \<mapsto> \<lparr>count = 1, firstAttempt = now, lastAttempt = now\<rparr>))
   \<and> fst (check (reset store key) key options now) = fst (check Map.empty key options now)
   \<and> snd (check (reset store key) key options now) key = snd (check Map.empty key options now) key"
  by (simp add: check_def reset_def fresh_entry_def)

text \<open>
  C3 (as amended). Take a run on one key with \<open>maxAttempts \<ge> 1\<close> and \<open>windowMs > 0\<close>:
  \<open>maxAttempts + 1\<close> consecutive checks, with ticks of the cleanup timer anywhere between
  them. Let the first check open a window (the key is unseen or its window has expired),
  let every later check be no more than \<open>windowMs\<close> after the first, and let no tick come
  more than one hour after the check that precedes it. Then each of the first
  \<open>maxAttempts\<close> checks is allowed and exactly the last one is refused, with
  \<open>retryAfterMs = windowMs - (now - firstAttempt)\<close>, which is never negative; it is
  strictly positive exactly when the last call comes less than \<open>windowMs\<close> after the first,
  and it is 0 when the last call comes exactly \<open>windowMs\<close> after the first.
\<close>

theorem C3_refused_on_call_after_limit:
  assumes "1 \<le> maxAttempts options" and "0 < windowMs options"
    and "opens_window store key options t0"
    and "int (length (check_times (CheckCall t0 # evs))) = maxAttempts options"
    and "\<forall>t\<in>set (check_times evs @ [tz]). t - t0 \<le> windowMs options"
    and "ticks_early t0 (evs @ [CheckCall tz])"
  shows "map success (fst (limiter_run store key options (CheckCall t0 # evs @ [CheckCall tz])))
           = replicate (length (check_times (CheckCall t0 # evs))) True @ [False]
       \<and> remainingMs (last (fst (limiter_run store key options (CheckCall t0 # evs @ [CheckCall tz]))))
           = Some (windowMs options - (tz - t0))
       \<and> 0 \<le> windowMs options - (tz - t0)
       \<and> (0 < windowMs options - (tz - t0) \<longleftrightarrow> tz - t0 < windowMs options)"
proof -
  note run = limiter_window_run [OF assms(3) assms(4) assms(5) assms(6)]
  have "map success (fst (limiter_run (store(key \<mapsto> fresh_entry t0)) key options evs))
          = replicate (length (check_times evs)) True"
    using map_const_True [OF run(2)] run(3) by simp
  moreover have "tz - t0 \<le> windowMs options" using assms(5) by simp
  ultimately show ?thesis
    by (simp add: run(1) del: limiter_run.simps)
qed

theorem C3_refused_on_call_after_limit_witness:
  "map success (fst (limiter_run Map.empty ''auth:a@b.c'' \<lparr>maxAttempts = 3, windowMs = 7200000\<rparr>
      [CheckCall 0, CleanupTick 2700000, CheckCall 3000000, CleanupTick 6300000,
       CheckCall 6500000, CheckCall 7000000]))
     = [True, True, True, False]
   \<and> remainingMs (last (fst (limiter_run Map.empty ''auth:a@b.c'' \<lparr>maxAttempts = 3, windowMs = 7200000\<rparr>
      [CheckCall 0, CleanupTick 2700000, CheckCall 3000000, CleanupTick 6300000,
       CheckCall 6500000, CheckCall 7000000])))
     = Some 200000"
  using C3_refused_on_call_after_limit
    [of "\<lparr>maxAttempts = 3, windowMs = 7200000\<rparr>" Map.empty "''auth:a@b.c''" 0
        "[CleanupTick 2700000, CheckCall 3000000, CleanupTick 6300000, CheckCall 6500000]" 7000000]
  by (simp add: opens_window_def CLEANUP_MAX_AGE_def)

text \<open>
  The claim as stated asks for \<open>retryAfterMs > 0\<close> on the refused call, for every
  \<open>windowMs > 0\<close>. With one allowed attempt and a window of 1000 ms, a second call exactly
  1000 ms after the first is still inside the window (\<open>now - firstAttempt > windowMs\<close> is
  false), is refused, and carries \<open>remainingMs = 0\<close>. With one allowed attempt and a window
  of three hours, a tick of the timer 65 minutes after the first call deletes the entry, and
  a second call two hours after the first, inside the window, is allowed.
\<close>

theorem C3_retry_after_zero_counterexample:
  "(1::int) \<le> maxAttempts \<lparr>maxAttempts = 1, windowMs = 1000\<rparr>
   \<and> (0::int) < windowMs \<lparr>maxAttempts = 1, windowMs = 1000\<rparr>
   \<and> (1000::int) - 0 \<le> windowMs \<lparr>maxAttempts = 1, windowMs = 1000\<rparr>
   \<and> map success (fst (limiter_run Map.empty ''k'' \<lparr>maxAttempts = 1, windowMs = 1000\<rparr>
        [CheckCall 0, CheckCall 1000]))
       = [True, False]
   \<and> map remainingMs (fst (limiter_run Map.empty ''k'' \<lparr>maxAttempts = 1, windowMs = 1000\<rparr>
        [CheckCall 0, CheckCall 1000]))
       = [None, Some 0]
   \<and> \<not> (0 < the (remainingMs (last (fst (limiter_run Map.empty ''k'' \<lparr>maxAttempts = 1, windowMs = 1000\<rparr>
        [CheckCall 0, CheckCall 1000])))))
   \<and> (7200000::int) - 0 \<le> windowMs \<lparr>maxAttempts = 1, windowMs = 10800000\<rparr>
   \<and> map success (fst (limiter_run Map.empty ''k'' \<lparr>maxAttempts = 1, windowMs = 10800000\<rparr>
        [CheckCall 0, CleanupTick 3900000, CheckCall 7200000]))
       = [True, True]"
  by (simp add: check_def cleanup_def fresh_entry_def CLEANUP_MAX_AGE_def)

section \<open>Properties of the event log\<close>

lemma findIndex_none: "\<forall>x\<in>set xs. \<not> P x \<Longrightarrow> findIndex P xs = - 1"
  by (induction xs) simp_all

lemma findIndex_nonneg_or_none: "findIndex P xs = - 1 \<or> 0 \<le> findIndex P xs"
  by (induction xs) (auto simp: Let_def)

lemma findIndex_negative_iff: "findIndex P xs < 0 \<longleftrightarrow> (\<forall>x\<in>set xs. \<not> P x)"
  by (induction xs) (auto simp: Let_def)

lemma findIndex_some:
  "\<exists>x\<in>set xs. P x \<Longrightarrow> findIndex P xs = int (length (takeWhile (\<lambda>x. \<not> P x) xs))"
  by (induction xs) (auto simp: Let_def findIndex_negative_iff)

lemma cleanupOldLogs_all_old:
  "\<forall>e\<in>set logs. \<not> timestamp e > now - maxAgeMs \<Longrightarrow> cleanupOldLogs now maxAgeMs logs = (0, logs)"
  by (simp add: cleanupOldLogs_def findIndex_none)

lemma cleanupOldLogs_some_new:
  assumes "\<exists>e\<in>set logs. timestamp e > now - maxAgeMs"
  shows "cleanupOldLogs now maxAgeMs logs =
           (int (length (takeWhile (\<lambda>e. \<not> timestamp e > now - maxAgeMs) logs)),
            dropWhile (\<lambda>e. \<not> timestamp e > now - maxAgeMs) logs)"
proof -
  let ?old = "\<lambda>e. \<not> timestamp e > now - maxAgeMs"
  have idx: "findIndex (\<lambda>e. timestamp e > now - maxAgeMs) logs = int (length (takeWhile ?old logs))"
    using findIndex_some [of logs "\<lambda>e. timestamp e > now - maxAgeMs"] assms by simp
  have d: "drop (length (takeWhile ?old logs)) logs = dropWhile ?old logs"
    by (simp add: dropWhile_eq_drop)
  have "length (takeWhile ?old logs) + length (dropWhile ?old logs) = length logs"
    by (metis length_append takeWhile_dropWhile_id)
  then have l: "int (length logs) - int (length (dropWhile ?old logs)) = int (length (takeWhile ?old logs))"
    by linarith
  show ?thesis
  proof (cases "length (takeWhile ?old logs) = 0")
    case True
    then have "takeWhile ?old logs = []" by simp
    then have "dropWhile ?old logs = logs"
      by (metis append_Nil takeWhile_dropWhile_id)
    with True show ?thesis by (simp add: cleanupOldLogs_def idx Let_def)
  next
    case False
    then show ?thesis using l by (simp add: cleanupOldLogs_def idx Let_def d)
  qed
qed

text \<open>
  C7. \<open>cleanupOldLogs\<close> cuts the prefix of entries that are not newer than the cutoff and
  returns its length when some entry is newer than the cutoff (\<open>cleanupOldLogs_some_new\<close>).
  When every entry is older than the cutoff, \<open>findIndex\<close> returns \<open>-1\<close>, the test
  \<open>index > 0\<close> fails and nothing is removed: with one entry stamped 0, the clock at 1000
  and \<open>maxAgeMs = 10\<close>, the call returns 0 and the buffer still holds the entry.
\<close>

theorem C7_cleanup_keeps_buffer_when_all_old:
  "cleanupOldLogs 1000 10
     [\<lparr>etype = LOGIN_FAILED, email = Some ''a@b.c'', userId = None, ip = None, userAgent = None,
       metadata = None, timestamp = 0, environment = ''development''\<rparr>]
   = (0, [\<lparr>etype = LOGIN_FAILED, email = Some ''a@b.c'', userId = None, ip = None, userAgent = None,
           metadata = None, timestamp = 0, environment = ''development''\<rparr>])"
  by (simp add: cleanupOldLogs_def)

lemma detect_ips:
  "set (filter (\<lambda>a. \<not> falsy a)
         (map ip (filter (\<lambda>e. etype e = LOGIN_FAILED)
            (filter (\<lambda>entry. email entry = Some em \<and> timestamp entry > now - 60 * 60 * 1000) logs))))
   = Some ` failed_login_ips em now logs"
proof (intro equalityI subsetI)
  fix a
  assume "a \<in> set (filter (\<lambda>a. \<not> falsy a)
         (map ip (filter (\<lambda>e. etype e = LOGIN_FAILED)
            (filter (\<lambda>entry. email entry = Some em \<and> timestamp entry > now - 60 * 60 * 1000) logs))))"
  then obtain e where e: "e \<in> set logs" "email e = Some em" "now - 3600000 < timestamp e"
      "etype e = LOGIN_FAILED" "a = ip e" "\<not> falsy a"
    by auto
  from e(6) obtain s where s: "a = Some s" "s \<noteq> []"
    by (auto simp: falsy_def split: option.splits)
  with e have "s \<in> failed_login_ips em now logs"
    by (auto simp: failed_login_ips_def in_trailing_hour_def)
  with s show "a \<in> Some ` failed_login_ips em now logs" by simp
next
  fix a
  assume "a \<in> Some ` failed_login_ips em now logs"
  then obtain s e where "a = Some s" "s \<noteq> []" "e \<in> set logs" "in_trailing_hour em now e"
      "etype e = LOGIN_FAILED" "ip e = Some s"
    by (auto simp: failed_login_ips_def)
  then show "a \<in> set (filter (\<lambda>a. \<not> falsy a)
         (map ip (filter (\<lambda>e. etype e = LOGIN_FAILED)
            (filter (\<lambda>entry. email entry = Some em \<and> timestamp entry > now - 60 * 60 * 1000) logs))))"
    by (force simp: falsy_def in_trailing_hour_def)
qed

lemma detect_ip_count:
  "length (remdups (filter (\<lambda>a. \<not> falsy a)
         (map ip (filter (\<lambda>e. etype e = LOGIN_FAILED)
            (filter (\<lambda>entry. email entry = Some em \<and> timestamp entry > now - 60 * 60 * 1000) logs)))))
   = card (failed_login_ips em now logs)"
  by (simp only: length_remdups_card_conv detect_ips) (simp add: card_image)

lemma detect_failed_count:
  "length (filter (\<lambda>e. etype e = LOGIN_FAILED)
            (filter (\<lambda>entry. email entry = Some em \<and> timestamp entry > now - 60 * 60 * 1000) logs))
   = failed_login_count em now logs"
  by (simp add: failed_login_count_def in_trailing_hour_def conj_commute cong: conj_cong)

lemma detect_reset_count:
  "length (filter (\<lambda>e. etype e = PASSWORD_RESET_REQUESTED)
            (filter (\<lambda>entry. email entry = Some em \<and> timestamp entry > now - 60 * 60 * 1000) logs))
   = reset_request_count em now logs"
  by (simp add: reset_request_count_def in_trailing_hour_def conj_commute cong: conj_cong)

text \<open>
  C8. On the events of the trailing hour for the email, \<open>detectSuspiciousActivity\<close> answers
  suspicious with the failed-logins reason when there are at least 10 \<open>LOGIN_FAILED\<close> events
  and at least 3 distinct addresses among them (tested first), otherwise suspicious with the
  reset-requests reason when there are at least 5 \<open>PASSWORD_RESET_REQUESTED\<close> events,
  otherwise not suspicious; fewer than 10 failed logins (9 from 3 addresses, say) with fewer
  than 5 reset requests give \<open>suspicious = False\<close>.
\<close>

theorem C8_detect_suspicious_decision:
  "detectSuspiciousActivity em now logs =
     (if 10 \<le> failed_login_count em now logs \<and> 3 \<le> card (failed_login_ips em now logs) then
        \<lparr>suspicious = True, reason = Some ''Multiple failed logins from different IPs''\<rparr>
      else if 5 \<le> reset_request_count em now logs then
        \<lparr>suspicious = True, reason = Some ''Excessive password reset requests''\<rparr>
      else \<lparr>suspicious = False, reason = None\<rparr>)
   \<and> (failed_login_count em now logs < 10 \<and> reset_request_count em now logs < 5 \<longrightarrow>
        detectSuspiciousActivity em now logs = \<lparr>suspicious = False, reason = None\<rparr>)"
  unfolding detectSuspiciousActivity_def Let_def detect_ip_count detect_failed_count detect_reset_count
  by simp

theorem C8_detect_suspicious_decision_witness:
  "failed_login_count ''a@b.c'' 6000
      (map (\<lambda>a. \<lparr>etype = LOGIN_FAILED, email = Some ''a@b.c'', userId = None, ip = Some a,
                  userAgent = None, metadata = None, timestamp = 5000, environment = ''development''\<rparr>)
         [''1.1.1.1'', ''2.2.2.2'', ''3.3.3.3'', ''1.1.1.1'', ''2.2.2.2'', ''3.3.3.3'',
          ''1.1.1.1'', ''2.2.2.2'', ''3.3.3.3'']) = 9
   \<and> detectSuspiciousActivity ''a@b.c'' 6000
      (map (\<lambda>a. \<lparr>etype = LOGIN_FAILED, email = Some ''a@b.c'', userId = None, ip = Some a,
                  userAgent = None, metadata = None, timestamp = 5000, environment = ''development''\<rparr>)
         [''1.1.1.1'', ''2.2.2.2'', ''3.3.3.3'', ''1.1.1.1'', ''2.2.2.2'', ''3.3.3.3'',
          ''1.1.1.1'', ''2.2.2.2'', ''3.3.3.3''])
     = \<lparr>suspicious = False, reason = None\<rparr>
   \<and> detectSuspiciousActivity ''a@b.c'' 6000
      (map (\<lambda>a. \<lparr>etype = LOGIN_FAILED, email = Some ''a@b.c'', userId = None, ip = Some a,
                  userAgent = None, metadata = None, timestamp = 5000, environment = ''development''\<rparr>)
         [''1.1.1.1'', ''2.2.2.2'', ''3.3.3.3'', ''1.1.1.1'', ''2.2.2.2'', ''3.3.3.3'',
          ''1.1.1.1'', ''2.2.2.2'', ''3.3.3.3'', ''1.1.1.1''])
     = \<lparr>suspicious = True, reason = Some ''Multiple failed logins from different IPs''\<rparr>"
proof -
  let ?entry = "\<lambda>a. \<lparr>etype = LOGIN_FAILED, email = Some ''a@b.c'', userId = None, ip = Some a,
                  userAgent = None, metadata = None, timestamp = 5000, environment = ''development''\<rparr>"
  let ?nine = "map ?entry [''1.1.1.1'', ''2.2.2.2'', ''3.3.3.3'', ''1.1.1.1'', ''2.2.2.2'', ''3.3.3.3'',
          ''1.1.1.1'', ''2.2.2.2'', ''3.3.3.3'']"
  have f: "failed_login_count ''a@b.c'' 6000 ?nine = 9"
    by (simp add: failed_login_count_def in_trailing_hour_def)
  have r: "reset_request_count ''a@b.c'' 6000 ?nine = 0"
    by (simp add: reset_request_count_def in_trailing_hour_def)
  have nine: "detectSuspiciousActivity ''a@b.c'' 6000 ?nine = \<lparr>suspicious = False, reason = None\<rparr>"
    using C8_detect_suspicious_decision [of "''a@b.c''" 6000 ?nine] f r by simp
  have ten: "detectSuspiciousActivity ''a@b.c'' 6000
      (map ?entry [''1.1.1.1'', ''2.2.2.2'', ''3.3.3.3'', ''1.1.1.1'', ''2.2.2.2'', ''3.3.3.3'',
          ''1.1.1.1'', ''2.2.2.2'', ''3.3.3.3'', ''1.1.1.1''])
     = \<lparr>suspicious = True, reason = Some ''Multiple failed logins from different IPs''\<rparr>"
    by (simp add: detectSuspiciousActivity_def falsy_def)
  from f nine ten show ?thesis by simp
qed

section \<open>Properties of the token flows\<close>

lemma vt_findUnique_Some:
  "vt_findUnique tok rows = Some r \<Longrightarrow> token r = tok \<and> r \<in> set rows"
  by (auto simp: vt_findUnique_def find_Some_iff)

lemma vt_findUnique_None_iff:
  "vt_findUnique tok rows = None \<longleftrightarrow> tok \<notin> token ` set rows"
  by (auto simp: vt_findUnique_def find_None_iff)

lemma vt_delete_found:
  "vt_findUnique tok rows = Some r \<Longrightarrow> vt_delete tok rows = Inr (filter (\<lambda>r. token r \<noteq> tok) rows)"
  by (simp add: vt_delete_def vt_findUnique_def)

lemma vt_findUnique_deleted [simp]:
  "vt_findUnique tok (filter (\<lambda>r. token r \<noteq> tok) rows) = None"
  by (auto simp: vt_findUnique_None_iff)

lemma user_update_missing:
  "user_findUnique em us = None \<Longrightarrow> user_update em f us = Inl RecordNotFound"
  by (simp add: user_update_def user_findUnique_def)

lemma user_update_found:
  "user_findUnique em us = Some u \<Longrightarrow>
   user_update em f us = Inr (map (\<lambda>u. if uemail u = em then f u else u) us)"
  by (simp add: user_update_def user_findUnique_def)

lemma verifyEmailToken_absent:
  "vt_findUnique tok (verificationTokens st) = None \<Longrightarrow> verifyEmailToken env now tok st = (Inr None, st)"
  by (simp add: verifyEmailToken_def)

lemma verifyEmailToken_expired:
  assumes "vt_findUnique tok (verificationTokens st) = Some row" and "expires row < now"
  shows "verifyEmailToken env now tok st =
           (Inr None, st\<lparr>verificationTokens := filter (\<lambda>r. token r \<noteq> tok) (verificationTokens st)\<rparr>)"
  using assms by (simp add: verifyEmailToken_def vt_delete_found)

lemma verifyEmailToken_no_user:
  assumes "vt_findUnique tok (verificationTokens st) = Some row" and "\<not> expires row < now"
    and "user_findUnique (vt_identifier row) (users st) = None"
  shows "verifyEmailToken env now tok st = (Inl (Prisma RecordNotFound), st)"
  using assms by (simp add: verifyEmailToken_def user_update_missing)

lemma verifyEmailToken_user:
  assumes "vt_findUnique tok (verificationTokens st) = Some row" and "\<not> expires row < now"
    and "user_findUnique (vt_identifier row) (users st) = Some u"
  shows "verifyEmailToken env now tok st =
           (Inr (Some (vt_identifier row)),
            log_event env now
              \<lparr>etype = EMAIL_VERIFIED, email = Some (vt_identifier row), userId = None, ip = None,
               userAgent = None, metadata = None\<rparr>
              (st\<lparr>users := map (\<lambda>u. if uemail u = vt_identifier row then u\<lparr>emailVerified := Some now\<rparr> else u)
                              (users st),
                  verificationTokens := filter (\<lambda>r. token r \<noteq> tok) (verificationTokens st)\<rparr>))"
  using assms by (simp add: verifyEmailToken_def user_update_found vt_delete_found Let_def)

lemma resetPasswordWithToken_absent:
  "vt_findUnique tok (verificationTokens st) = None \<Longrightarrow>
   resetPasswordWithToken env now tok pw st = (Inr False, st)"
  by (simp add: resetPasswordWithToken_def)

lemma resetPasswordWithToken_other_namespace:
  assumes "vt_findUnique tok (verificationTokens st) = Some row"
    and "\<not> startsWith (vt_identifier row) reset_prefix"
  shows "resetPasswordWithToken env now tok pw st = (Inr False, st)"
  using assms by (simp add: resetPasswordWithToken_def)

lemma resetPasswordWithToken_expired:
  assumes "vt_findUnique tok (verificationTokens st) = Some row"
    and "startsWith (vt_identifier row) reset_prefix" and "expires row < now"
  shows "resetPasswordWithToken env now tok pw st =
           (Inr False, st\<lparr>verificationTokens := filter (\<lambda>r. token r \<noteq> tok) (verificationTokens st)\<rparr>)"
  using assms by (simp add: resetPasswordWithToken_def vt_delete_found)

lemma replace_prefix: "replace pat rep (pat @ s) = rep @ s"
proof (cases "pat @ s")
  case Nil
  then show ?thesis by simp
next
  case (Cons a list)
  have "take (length pat) (pat @ s) = pat" and "drop (length pat) (pat @ s) = s"
    by simp_all
  then show ?thesis
    by (simp only: Cons replace.simps refl if_True)
qed

lemma startsWith_append [simp]: "startsWith (p @ s) p"
  by (simp add: startsWith_def)

lemma resetPasswordWithToken_user:
  assumes "vt_findUnique tok (verificationTokens st) = Some row"
    and "vt_identifier row = reset_prefix @ em" and "\<not> expires row < now"
    and "user_findUnique em (users st) = Some u"
  shows "fst (resetPasswordWithToken env now tok pw st) = Inr True"
    and "verificationTokens (snd (resetPasswordWithToken env now tok pw st))
           = filter (\<lambda>r. token r \<noteq> tok) (verificationTokens st)"
    and "users (snd (resetPasswordWithToken env now tok pw st))
           = map (\<lambda>u. if uemail u = em then u\<lparr>password := Some (bcrypt_hash env pw BCRYPT_ROUNDS)\<rparr> else u)
               (users st)"
    and "rateLimitStore (snd (resetPasswordWithToken env now tok pw st)) (auth_key em) = None"
  using assms
  by (simp_all add: resetPasswordWithToken_def replace_prefix user_update_found vt_delete_found
        Let_def log_event_def reset_def)


text \<open>
  C6 (as amended). For every stored token whose expiry is earlier than the current time,
  \<open>verifyEmailToken\<close> returns null and deletes the row, so the token is absent afterwards;
  \<open>resetPasswordWithToken\<close> returns false, and deletes the row when the identifier starts
  with \<open>reset:\<close>, while for any other identifier it returns before the expiry test and
  leaves the state as it was. A token whose expiry is one millisecond before the current
  time is an instance.
\<close>

theorem C6_expired_token_rejected:
  assumes "vt_findUnique tok (verificationTokens st) = Some row" and "expires row < now"
  shows "verifyEmailToken env now tok st =
           (Inr None, st\<lparr>verificationTokens := filter (\<lambda>r. token r \<noteq> tok) (verificationTokens st)\<rparr>)
       \<and> vt_findUnique tok (verificationTokens (snd (verifyEmailToken env now tok st))) = None
       \<and> fst (resetPasswordWithToken env now tok pw st) = Inr False
       \<and> (startsWith (vt_identifier row) reset_prefix \<longrightarrow>
            snd (resetPasswordWithToken env now tok pw st) =
              st\<lparr>verificationTokens := filter (\<lambda>r. token r \<noteq> tok) (verificationTokens st)\<rparr>
            \<and> vt_findUnique tok (verificationTokens (snd (resetPasswordWithToken env now tok pw st))) = None)
       \<and> (\<not> startsWith (vt_identifier row) reset_prefix \<longrightarrow>
            snd (resetPasswordWithToken env now tok pw st) = st)"
proof -
  note v = verifyEmailToken_expired [OF assms, of env]
  have r1: "startsWith (vt_identifier row) reset_prefix \<Longrightarrow>
      resetPasswordWithToken env now tok pw st =
        (Inr False, st\<lparr>verificationTokens := filter (\<lambda>r. token r \<noteq> tok) (verificationTokens st)\<rparr>)"
    using resetPasswordWithToken_expired [OF assms(1) _ assms(2)] by simp
  have r2: "\<not> startsWith (vt_identifier row) reset_prefix \<Longrightarrow>
      resetPasswordWithToken env now tok pw st = (Inr False, st)"
    using resetPasswordWithToken_other_namespace [OF assms(1)] by simp
  show ?thesis
    using v r1 r2 by (cases "startsWith (vt_identifier row) reset_prefix") simp_all
qed

theorem C6_expired_token_rejected_witness:
  "fst (verifyEmailToken example_env 1000 ''V'' (example_state\<lparr>verificationTokens := example_tokens (1000 - 1)\<rparr>))
     = Inr None
   \<and> vt_findUnique ''V'' (verificationTokens (snd (verifyEmailToken example_env 1000 ''V''
        (example_state\<lparr>verificationTokens := example_tokens (1000 - 1)\<rparr>)))) = None
   \<and> fst (resetPasswordWithToken example_env 1000 ''R'' ''Newpass1''
        (example_state\<lparr>verificationTokens := example_tokens (1000 - 1)\<rparr>)) = Inr False
   \<and> vt_findUnique ''R'' (verificationTokens (snd (resetPasswordWithToken example_env 1000 ''R'' ''Newpass1''
        (example_state\<lparr>verificationTokens := example_tokens (1000 - 1)\<rparr>)))) = None"
proof -
  let ?st = "example_state\<lparr>verificationTokens := example_tokens (1000 - 1)\<rparr>"
  have v: "vt_findUnique ''V'' (verificationTokens ?st)
             = Some \<lparr>vt_identifier = ''demo@x.com'', token = ''V'', expires = 999\<rparr>"
    by (simp add: example_tokens_def vt_findUnique_def)
  have r: "vt_findUnique ''R'' (verificationTokens ?st)
             = Some \<lparr>vt_identifier = ''reset:demo@x.com'', token = ''R'', expires = 999\<rparr>"
    by (simp add: example_tokens_def vt_findUnique_def)
  have p: "startsWith (vt_identifier \<lparr>vt_identifier = ''reset:demo@x.com'', token = ''R'', expires = 999\<rparr>)
             reset_prefix"
    by (simp add: startsWith_def reset_prefix_def)
  show ?thesis
    using C6_expired_token_rejected [OF v, of 1000 example_env "''Newpass1''"]
          C6_expired_token_rejected [OF r, of 1000 example_env "''Newpass1''"] p
    by simp
qed

text \<open>
  The claim as stated lets \<open>resetPasswordWithToken\<close> delete every expired stored token. An
  expired verification token (identifier without the \<open>reset:\<close> prefix) is refused by it
  and stays in the table.
\<close>

theorem C6_reset_keeps_foreign_expired_token_counterexample:
  "expires \<lparr>vt_identifier = ''demo@x.com'', token = ''V'', expires = 999\<rparr> < 1000
   \<and> vt_findUnique ''V'' (verificationTokens (example_state\<lparr>verificationTokens := example_tokens 999\<rparr>))
       = Some \<lparr>vt_identifier = ''demo@x.com'', token = ''V'', expires = 999\<rparr>
   \<and> fst (resetPasswordWithToken example_env 1000 ''V'' ''Newpass1''
        (example_state\<lparr>verificationTokens := example_tokens 999\<rparr>)) = Inr False
   \<and> vt_findUnique ''V'' (verificationTokens (snd (resetPasswordWithToken example_env 1000 ''V'' ''Newpass1''
        (example_state\<lparr>verificationTokens := example_tokens 999\<rparr>))))
       = Some \<lparr>vt_identifier = ''demo@x.com'', token = ''V'', expires = 999\<rparr>"
  by (simp add: resetPasswordWithToken_def example_tokens_def vt_findUnique_def startsWith_def
        reset_prefix_def)

text \<open>
  C10 (as amended). \<open>resetPasswordWithToken\<close> returns false for any stored token whose
  identifier does not start with \<open>reset:\<close> and leaves the whole state, the token row
  included, as it was. \<open>verifyEmailToken\<close> tests no prefix: for any stored unexpired token
  it goes on to update the user whose email is the raw identifier. When such a user exists
  it stamps \<open>emailVerified\<close>, deletes the token, logs \<open>EMAIL_VERIFIED\<close> and returns the
  identifier; when none exists the update fails with the client's record-not-found error,
  which is thrown, and the token row stays.
\<close>

theorem C10_namespace_asymmetry:
  assumes "vt_findUnique tok (verificationTokens st) = Some row"
  shows "(\<not> startsWith (vt_identifier row) reset_prefix \<longrightarrow>
            resetPasswordWithToken env now tok pw st = (Inr False, st))
       \<and> (\<not> expires row < now \<longrightarrow>
            (case user_findUnique (vt_identifier row) (users st) of
               Some u \<Rightarrow>
                 verifyEmailToken env now tok st =
                   (Inr (Some (vt_identifier row)),
                    log_event env now
                      \<lparr>etype = EMAIL_VERIFIED, email = Some (vt_identifier row), userId = None,
                       ip = None, userAgent = None, metadata = None\<rparr>
                      (st\<lparr>users := map (\<lambda>u. if uemail u = vt_identifier row
                                             then u\<lparr>emailVerified := Some now\<rparr> else u) (users st),
                          verificationTokens := filter (\<lambda>r. token r \<noteq> tok) (verificationTokens st)\<rparr>))
             | None \<Rightarrow> verifyEmailToken env now tok st = (Inl (Prisma RecordNotFound), st)))"
proof (intro conjI impI)
  assume "\<not> startsWith (vt_identifier row) reset_prefix"
  then show "resetPasswordWithToken env now tok pw st = (Inr False, st)"
    by (rule resetPasswordWithToken_other_namespace [OF assms])
next
  assume live: "\<not> expires row < now"
  show "case user_findUnique (vt_identifier row) (users st) of
          Some u \<Rightarrow>
            verifyEmailToken env now tok st =
              (Inr (Some (vt_identifier row)),
               log_event env now
                 \<lparr>etype = EMAIL_VERIFIED, email = Some (vt_identifier row), userId = None,
                  ip = None, userAgent = None, metadata = None\<rparr>
                 (st\<lparr>users := map (\<lambda>u. if uemail u = vt_identifier row
                                        then u\<lparr>emailVerified := Some now\<rparr> else u) (users st),
                     verificationTokens := filter (\<lambda>r. token r \<noteq> tok) (verificationTokens st)\<rparr>))
        | None \<Rightarrow> verifyEmailToken env now tok st = (Inl (Prisma RecordNotFound), st)"
  proof (cases "user_findUnique (vt_identifier row) (users st)")
    case None
    then show ?thesis
      using verifyEmailToken_no_user [OF assms live] by simp
  next
    case (Some u)
    then show ?thesis
      using verifyEmailToken_user [OF assms live] by simp
  qed
qed

theorem C10_namespace_asymmetry_witness:
  "resetPasswordWithToken example_env 1000 ''V'' ''Newpass1''
       (example_state\<lparr>verificationTokens := example_tokens 5000\<rparr>)
     = (Inr False, example_state\<lparr>verificationTokens := example_tokens 5000\<rparr>)
   \<and> fst (verifyEmailToken example_env 1000 ''V'' (example_state\<lparr>verificationTokens := example_tokens 5000\<rparr>))
     = Inr (Some ''demo@x.com'')
   \<and> verificationTokens (snd (verifyEmailToken example_env 1000 ''V''
        (example_state\<lparr>verificationTokens := example_tokens 5000\<rparr>)))
     = [\<lparr>vt_identifier = ''reset:demo@x.com'', token = ''R'', expires = 5000\<rparr>]
   \<and> verifyEmailToken example_env 1000 ''R'' (example_state\<lparr>verificationTokens := example_tokens 5000\<rparr>)
     = (Inl (Prisma RecordNotFound), example_state\<lparr>verificationTokens := example_tokens 5000\<rparr>)"
proof -
  let ?st = "example_state\<lparr>verificationTokens := example_tokens 5000\<rparr>"
  let ?v = "\<lparr>vt_identifier = ''demo@x.com'', token = ''V'', expires = 5000\<rparr>"
  let ?r = "\<lparr>vt_identifier = ''reset:demo@x.com'', token = ''R'', expires = 5000\<rparr>"
  have v: "vt_findUnique ''V'' (verificationTokens ?st) = Some ?v"
    by (simp add: example_tokens_def vt_findUnique_def)
  have r: "vt_findUnique ''R'' (verificationTokens ?st) = Some ?r"
    by (simp add: example_tokens_def vt_findUnique_def)
  have nv: "\<not> startsWith (vt_identifier ?v) reset_prefix"
    by (simp add: startsWith_def reset_prefix_def)
  have uv: "user_findUnique (vt_identifier ?v) (users ?st) = Some example_user"
    by (simp add: user_findUnique_def example_state_def example_user_def)
  have ur: "user_findUnique (vt_identifier ?r) (users ?st) = None"
    by (simp add: user_findUnique_def example_state_def example_user_def)
  show ?thesis
    using C10_namespace_asymmetry [OF v, of example_env 1000 "''Newpass1''"]
          C10_namespace_asymmetry [OF r, of example_env 1000 "''Newpass1''"] nv uv ur
    by (simp add: example_tokens_def log_event_def)
qed

text \<open>
  The claim as stated has \<open>verifyEmailToken\<close> delete any stored unexpired token. Given an
  unexpired reset token of a registered user, no user has the raw identifier
  \<open>reset:demo@x.com\<close> as email: the update throws and the token is still in the table.
\<close>

theorem C10_verify_keeps_reset_token_counterexample:
  "vt_findUnique ''R'' (verificationTokens (example_state\<lparr>verificationTokens := example_tokens 5000\<rparr>))
       = Some \<lparr>vt_identifier = ''reset:demo@x.com'', token = ''R'', expires = 5000\<rparr>
   \<and> \<not> expires \<lparr>vt_identifier = ''reset:demo@x.com'', token = ''R'', expires = 5000\<rparr> < 1000
   \<and> fst (verifyEmailToken example_env 1000 ''R'' (example_state\<lparr>verificationTokens := example_tokens 5000\<rparr>))
       = Inl (Prisma RecordNotFound)
   \<and> vt_findUnique ''R'' (verificationTokens (snd (verifyEmailToken example_env 1000 ''R''
        (example_state\<lparr>verificationTokens := example_tokens 5000\<rparr>))))
       = Some \<lparr>vt_identifier = ''reset:demo@x.com'', token = ''R'', expires = 5000\<rparr>"
  by (simp add: verifyEmailToken_def example_tokens_def vt_findUnique_def user_update_def
        example_state_def example_user_def)

lemma vt_create_ok:
  "vt_create row rows = Inr rows' \<Longrightarrow> rows' = rows @ [row] \<and> token row \<notin> token ` set rows"
  by (auto simp: vt_create_def split: if_splits)

lemma vt_findUnique_created:
  "token row \<notin> token ` set rows \<Longrightarrow> vt_findUnique (token row) (rows @ [row]) = Some row"
  by (induction rows) (auto simp: vt_findUnique_def)

lemma generateVerificationToken_ok:
  assumes "generateVerificationToken rnd t0 em st = (Inr tok, st1)"
  shows "tok = generateToken 64 rnd"
    and "vt_findUnique tok (verificationTokens st1)
           = Some \<lparr>vt_identifier = em, token = tok, expires = t0 + VERIFICATION_TTL_MS\<rparr>"
    and "users st1 = users st"
proof -
  let ?row = "\<lparr>vt_identifier = em, token = generateToken 64 rnd, expires = t0 + VERIFICATION_TTL_MS\<rparr>"
  let ?rows = "vt_deleteMany em (verificationTokens st)"
  from assms obtain rows' where c: "vt_create ?row ?rows = Inr rows'"
    and t: "tok = generateToken 64 rnd"
    and s: "st1 = st\<lparr>verificationTokens := rows'\<rparr>"
    by (auto simp: generateVerificationToken_def Let_def split: sum.splits)
  from vt_create_ok [OF c] have r: "rows' = ?rows @ [?row]" and f: "token ?row \<notin> token ` set ?rows"
    by simp_all
  show "tok = generateToken 64 rnd" by (rule t)
  show "vt_findUnique tok (verificationTokens st1)
           = Some \<lparr>vt_identifier = em, token = tok, expires = t0 + VERIFICATION_TTL_MS\<rparr>"
    using vt_findUnique_created [OF f] by (simp add: s r t)
  show "users st1 = users st" by (simp add: s)
qed

lemma generatePasswordResetToken_ok:
  assumes "generatePasswordResetToken env rnd t0 em st = (Inr (Some tok), st1)"
  shows "tok = generateToken 64 rnd"
    and "vt_findUnique tok (verificationTokens st1)
           = Some \<lparr>vt_identifier = reset_prefix @ em, token = tok, expires = t0 + RESET_TTL_MS\<rparr>"
    and "users st1 = users st"
    and "user_findUnique em (users st) \<noteq> None"
proof -
  let ?row = "\<lparr>vt_identifier = reset_prefix @ em, token = generateToken 64 rnd, expires = t0 + RESET_TTL_MS\<rparr>"
  let ?rows = "vt_deleteMany (reset_prefix @ em) (verificationTokens st)"
  from assms obtain u where u: "user_findUnique em (users st) = Some u"
    by (auto simp: generatePasswordResetToken_def split: option.splits)
  from assms u obtain rows' where c: "vt_create ?row ?rows = Inr rows'"
    and t: "tok = generateToken 64 rnd"
    and s: "verificationTokens st1 = rows'" "users st1 = users st"
    by (auto simp: generatePasswordResetToken_def Let_def log_event_def split: sum.splits)
  from vt_create_ok [OF c] have r: "rows' = ?rows @ [?row]" and f: "token ?row \<notin> token ` set ?rows"
    by simp_all
  show "tok = generateToken 64 rnd" by (rule t)
  show "vt_findUnique tok (verificationTokens st1)
           = Some \<lparr>vt_identifier = reset_prefix @ em, token = tok, expires = t0 + RESET_TTL_MS\<rparr>"
    using vt_findUnique_created [OF f] by (simp add: s r t)
  show "users st1 = users st" by (rule s)
  show "user_findUnique em (users st) \<noteq> None" using u by simp
qed

text \<open>
  C5 (as amended). A verification token that \<open>generateVerificationToken\<close> has just issued
  for an email that has a user record, consumed no later than 24 hours after its issue:
  the first \<open>verifyEmailToken\<close> returns the email and deletes the row, and a second one
  with the same token returns null. A reset token that \<open>generatePasswordResetToken\<close> has
  just issued (which it does only for an email with a user record), consumed no later than
  one hour after its issue: the first \<open>resetPasswordWithToken\<close> returns true and deletes the
  row, and a second one returns false.
\<close>

theorem C5_token_round_trip:
  "(generateVerificationToken rnd t0 em st = (Inr tok, st1)
      \<and> user_findUnique em (users st) \<noteq> None \<and> t1 \<le> t0 + VERIFICATION_TTL_MS \<longrightarrow>
      fst (verifyEmailToken env t1 tok st1) = Inr (Some em)
      \<and> vt_findUnique tok (verificationTokens (snd (verifyEmailToken env t1 tok st1))) = None
      \<and> fst (verifyEmailToken env t2 tok (snd (verifyEmailToken env t1 tok st1))) = Inr None)
   \<and> (generatePasswordResetToken env rnd t0 em st = (Inr (Some tok), st1)
      \<and> t1 \<le> t0 + RESET_TTL_MS \<longrightarrow>
      fst (resetPasswordWithToken env t1 tok pw st1) = Inr True
      \<and> vt_findUnique tok (verificationTokens (snd (resetPasswordWithToken env t1 tok pw st1))) = None
      \<and> fst (resetPasswordWithToken env t2 tok pw' (snd (resetPasswordWithToken env t1 tok pw st1)))
          = Inr False)"
proof (intro conjI impI)
  assume a: "generateVerificationToken rnd t0 em st = (Inr tok, st1)
      \<and> user_findUnique em (users st) \<noteq> None \<and> t1 \<le> t0 + VERIFICATION_TTL_MS"
  let ?row = "\<lparr>vt_identifier = em, token = tok, expires = t0 + VERIFICATION_TTL_MS\<rparr>"
  from a have issue: "generateVerificationToken rnd t0 em st = (Inr tok, st1)" by simp
  have found: "vt_findUnique tok (verificationTokens st1) = Some ?row"
    by (rule generateVerificationToken_ok(2) [OF issue])
  have live: "\<not> expires ?row < t1" using a by simp
  from a generateVerificationToken_ok(3) [OF issue]
  obtain u where u: "user_findUnique (vt_identifier ?row) (users st1) = Some u" by auto
  note first = verifyEmailToken_user [OF found live u, of env]
  show r1: "fst (verifyEmailToken env t1 tok st1) = Inr (Some em)"
    by (simp add: first)
  show gone: "vt_findUnique tok (verificationTokens (snd (verifyEmailToken env t1 tok st1))) = None"
    by (simp add: first log_event_def)
  show "fst (verifyEmailToken env t2 tok (snd (verifyEmailToken env t1 tok st1))) = Inr None"
    by (simp add: verifyEmailToken_absent [OF gone])
next
  assume a: "generatePasswordResetToken env rnd t0 em st = (Inr (Some tok), st1)
      \<and> t1 \<le> t0 + RESET_TTL_MS"
  let ?row = "\<lparr>vt_identifier = reset_prefix @ em, token = tok, expires = t0 + RESET_TTL_MS\<rparr>"
  from a have issue: "generatePasswordResetToken env rnd t0 em st = (Inr (Some tok), st1)" by simp
  have found: "vt_findUnique tok (verificationTokens st1) = Some ?row"
    by (rule generatePasswordResetToken_ok(2) [OF issue])
  have ident: "vt_identifier ?row = reset_prefix @ em" by simp
  have live: "\<not> expires ?row < t1" using a by simp
  from generatePasswordResetToken_ok(3,4) [OF issue]
  obtain u where u: "user_findUnique em (users st1) = Some u" by auto
  note first = resetPasswordWithToken_user [OF found ident live u, of env pw]
  show "fst (resetPasswordWithToken env t1 tok pw st1) = Inr True"
    by (rule first(1))
  show gone: "vt_findUnique tok (verificationTokens (snd (resetPasswordWithToken env t1 tok pw st1))) = None"
    by (simp add: first(2))
  show "fst (resetPasswordWithToken env t2 tok pw' (snd (resetPasswordWithToken env t1 tok pw st1)))
          = Inr False"
    by (simp add: resetPasswordWithToken_absent [OF gone])
qed

theorem C5_token_round_trip_witness:
  "fst (verifyEmailToken example_env 1000 (generateToken 64 example_random)
         (snd (generateVerificationToken example_random 0 ''demo@x.com'' example_state)))
     = Inr (Some ''demo@x.com'')
   \<and> fst (verifyEmailToken example_env 2000 (generateToken 64 example_random)
         (snd (verifyEmailToken example_env 1000 (generateToken 64 example_random)
            (snd (generateVerificationToken example_random 0 ''demo@x.com'' example_state)))))
     = Inr None
   \<and> fst (resetPasswordWithToken example_env 1000 (generateToken 64 example_random) ''Newpass1''
         (snd (generatePasswordResetToken example_env example_random 0 ''demo@x.com'' example_state)))
     = Inr True
   \<and> fst (resetPasswordWithToken example_env 2000 (generateToken 64 example_random) ''Newpass2''
         (snd (resetPasswordWithToken example_env 1000 (generateToken 64 example_random) ''Newpass1''
            (snd (generatePasswordResetToken example_env example_random 0 ''demo@x.com'' example_state)))))
     = Inr False"
proof -
  have v: "generateVerificationToken example_random 0 ''demo@x.com'' example_state
      = (Inr (generateToken 64 example_random),
         snd (generateVerificationToken example_random 0 ''demo@x.com'' example_state))"
    by (simp add: generateVerificationToken_def example_state_def vt_deleteMany_def vt_create_def Let_def)
  have r: "generatePasswordResetToken example_env example_random 0 ''demo@x.com'' example_state
      = (Inr (Some (generateToken 64 example_random)),
         snd (generatePasswordResetToken example_env example_random 0 ''demo@x.com'' example_state))"
    by (simp add: generatePasswordResetToken_def example_state_def example_user_def
          user_findUnique_def vt_deleteMany_def vt_create_def Let_def)
  have u: "user_findUnique ''demo@x.com'' (users example_state) \<noteq> None"
    by (simp add: example_state_def example_user_def user_findUnique_def)
  have tv: "(1000::int) \<le> 0 + VERIFICATION_TTL_MS" by (simp add: VERIFICATION_TTL_MS_def)
  have tr: "(1000::int) \<le> 0 + RESET_TTL_MS" by (simp add: RESET_TTL_MS_def)
  show ?thesis
    using C5_token_round_trip [of example_random 0 "''demo@x.com''" example_state
              "generateToken 64 example_random"
              "snd (generateVerificationToken example_random 0 ''demo@x.com'' example_state)"
              1000 example_env 2000]
          C5_token_round_trip [of example_random 0 "''demo@x.com''" example_state
              "generateToken 64 example_random"
              "snd (generatePasswordResetToken example_env example_random 0 ''demo@x.com'' example_state)"
              1000 example_env 2000 "''Newpass1''" "''Newpass2''"]
          v r u tv tr
    by simp
qed

text \<open>
  The claim as stated covers every identifier. \<open>generateVerificationToken\<close> issues a token
  for an email without a user record as well; consuming that token, unexpired, throws the
  record-not-found error of the update and leaves the token in the table.
\<close>

theorem C5_verify_without_user_counterexample:
  "fst (generateVerificationToken example_random 0 ''ghost@x.com'' example_state)
     = Inr (generateToken 64 example_random)
   \<and> \<not> 0 + VERIFICATION_TTL_MS < 1000
   \<and> fst (verifyEmailToken example_env 1000 (generateToken 64 example_random)
         (snd (generateVerificationToken example_random 0 ''ghost@x.com'' example_state)))
     = Inl (Prisma RecordNotFound)
   \<and> vt_findUnique (generateToken 64 example_random)
        (verificationTokens (snd (verifyEmailToken example_env 1000 (generateToken 64 example_random)
           (snd (generateVerificationToken example_random 0 ''ghost@x.com'' example_state)))))
     = Some \<lparr>vt_identifier = ''ghost@x.com'', token = generateToken 64 example_random,
              expires = 0 + VERIFICATION_TTL_MS\<rparr>"
  by (simp add: generateVerificationToken_def verifyEmailToken_def example_state_def
        example_user_def vt_deleteMany_def vt_create_def vt_findUnique_def user_update_def
        VERIFICATION_TTL_MS_def Let_def)

lemma tokens_after_verifyEmailToken:
  "verificationTokens (snd (verifyEmailToken env now tok st)) = verificationTokens st
   \<or> verificationTokens (snd (verifyEmailToken env now tok st))
       = filter (\<lambda>r. token r \<noteq> tok) (verificationTokens st)"
  by (auto simp: verifyEmailToken_def vt_delete_def log_event_def Let_def
           split: option.splits sum.splits)

lemma tokens_after_resetPasswordWithToken:
  "verificationTokens (snd (resetPasswordWithToken env now tok pw st)) = verificationTokens st
   \<or> verificationTokens (snd (resetPasswordWithToken env now tok pw st))
       = filter (\<lambda>r. token r \<noteq> tok) (verificationTokens st)"
  by (auto simp: resetPasswordWithToken_def vt_delete_def log_event_def Let_def
           split: option.splits sum.splits)

lemma tokens_after_generateVerificationToken:
  "verificationTokens (snd (generateVerificationToken rnd now em st))
     = vt_deleteMany em (verificationTokens st)
   \<or> (verificationTokens (snd (generateVerificationToken rnd now em st))
         = vt_deleteMany em (verificationTokens st)
             @ [\<lparr>vt_identifier = em, token = generateToken 64 rnd, expires = now + VERIFICATION_TTL_MS\<rparr>]
       \<and> generateToken 64 rnd \<notin> token ` set (vt_deleteMany em (verificationTokens st)))"
  by (auto simp: generateVerificationToken_def vt_create_def Let_def split: sum.splits if_splits)

lemma tokens_after_generatePasswordResetToken:
  "verificationTokens (snd (generatePasswordResetToken env rnd now em st)) = verificationTokens st
     \<and> user_findUnique em (users st) = None
   \<or> user_findUnique em (users st) \<noteq> None
     \<and> (verificationTokens (snd (generatePasswordResetToken env rnd now em st))
         = vt_deleteMany (reset_prefix @ em) (verificationTokens st)
        \<or> (verificationTokens (snd (generatePasswordResetToken env rnd now em st))
             = vt_deleteMany (reset_prefix @ em) (verificationTokens st)
                 @ [\<lparr>vt_identifier = reset_prefix @ em, token = generateToken 64 rnd,
                     expires = now + RESET_TTL_MS\<rparr>]
           \<and> generateToken 64 rnd \<notin> token ` set (vt_deleteMany (reset_prefix @ em) (verificationTokens st))))"
  by (auto simp: generatePasswordResetToken_def vt_create_def Let_def log_event_def
           split: option.splits sum.splits if_splits)

lemma table_ok_filter:
  "tokens_unique rows \<Longrightarrow> tokens_unique (filter P rows)"
  "one_token_per_identifier rows \<Longrightarrow> one_token_per_identifier (filter P rows)"
  by (simp_all add: tokens_unique_def one_token_per_identifier_def distinct_map_filter)

lemma table_ok_issue:
  assumes "tokens_unique rows" and "one_token_per_identifier rows"
    and "tok \<notin> token ` set (vt_deleteMany ident rows)"
  shows "tokens_unique (vt_deleteMany ident rows @ [\<lparr>vt_identifier = ident, token = tok, expires = exp\<rparr>])"
    and "one_token_per_identifier
           (vt_deleteMany ident rows @ [\<lparr>vt_identifier = ident, token = tok, expires = exp\<rparr>])"
proof -
  have "tokens_unique (vt_deleteMany ident rows)"
    and "one_token_per_identifier (vt_deleteMany ident rows)"
    using assms(1,2) by (simp_all add: vt_deleteMany_def table_ok_filter)
  moreover have "ident \<notin> vt_identifier ` set (vt_deleteMany ident rows)"
    by (auto simp: vt_deleteMany_def)
  ultimately show
    "tokens_unique (vt_deleteMany ident rows @ [\<lparr>vt_identifier = ident, token = tok, expires = exp\<rparr>])"
    and "one_token_per_identifier
           (vt_deleteMany ident rows @ [\<lparr>vt_identifier = ident, token = tok, expires = exp\<rparr>])"
    using assms(3) by (simp_all add: tokens_unique_def one_token_per_identifier_def)
qed

lemma table_ok_step:
  assumes "tokens_unique (verificationTokens st)" and "one_token_per_identifier (verificationTokens st)"
  shows "tokens_unique (verificationTokens (apply_token_op env op st))
       \<and> one_token_per_identifier (verificationTokens (apply_token_op env op st))"
proof (cases op)
  case (IssueVerification rnd now em)
  then show ?thesis
    using tokens_after_generateVerificationToken [of rnd now em st]
          table_ok_issue [OF assms, of "generateToken 64 rnd" em "now + VERIFICATION_TTL_MS"]
          table_ok_filter(1) [OF assms(1)] table_ok_filter(2) [OF assms(2)]
    by (auto simp: vt_deleteMany_def)
next
  case (IssueReset rnd now em)
  then show ?thesis
    using tokens_after_generatePasswordResetToken [of env rnd now em st]
          table_ok_issue [OF assms, of "generateToken 64 rnd" "reset_prefix @ em" "now + RESET_TTL_MS"]
          table_ok_filter(1) [OF assms(1)] table_ok_filter(2) [OF assms(2)] assms
    by (auto simp: vt_deleteMany_def)
next
  case (VerifyEmail now tok)
  then show ?thesis
    using tokens_after_verifyEmailToken [of env now tok st]
          table_ok_filter(1) [OF assms(1)] table_ok_filter(2) [OF assms(2)] assms
    by auto
next
  case (ResetPassword now tok pw)
  then show ?thesis
    using tokens_after_resetPasswordWithToken [of env now tok pw st]
          table_ok_filter(1) [OF assms(1)] table_ok_filter(2) [OF assms(2)] assms
    by auto
qed

lemma table_ok_run:
  "tokens_unique (verificationTokens st) \<Longrightarrow> one_token_per_identifier (verificationTokens st) \<Longrightarrow>
   tokens_unique (verificationTokens (run_token_ops env ops st))
   \<and> one_token_per_identifier (verificationTokens (run_token_ops env ops st))"
proof (induction ops arbitrary: st)
  case Nil
  then show ?case by simp
next
  case (Cons op ops)
  from table_ok_step [OF Cons.prems, of env op]
  show ?case by (simp add: Cons.IH)
qed

lemma old_token_deleted:
  assumes "tokens_unique rows" and "vt_findUnique old rows = Some row" and "vt_identifier row = ident"
  shows "old \<notin> token ` set (vt_deleteMany ident rows)"
proof
  assume "old \<in> token ` set (vt_deleteMany ident rows)"
  then obtain r where r: "r \<in> set rows" "vt_identifier r \<noteq> ident" "token r = old"
    by (auto simp: vt_deleteMany_def)
  from vt_findUnique_Some [OF assms(2)] have row: "row \<in> set rows" "token row = old" by simp_all
  from assms(1) have "inj_on token (set rows)"
    by (simp add: tokens_unique_def distinct_map)
  with r row have "r = row" by (auto dest: inj_onD)
  with r(2) assms(3) show False by simp
qed

lemma issued_row_only:
  assumes "verificationTokens st' = vt_deleteMany ident rows
           \<or> verificationTokens st' = vt_deleteMany ident rows @ [\<lparr>vt_identifier = ident, token = tok, expires = exp\<rparr>]"
    and "r \<in> set (verificationTokens st')" and "vt_identifier r = ident"
  shows "token r = tok"
proof -
  let ?new = "\<lparr>vt_identifier = ident, token = tok, expires = exp\<rparr>"
  from assms(1) have "set (verificationTokens st') \<subseteq> set (vt_deleteMany ident rows) \<union> {?new}"
    by auto
  with assms(2) have "r \<in> set (vt_deleteMany ident rows) \<or> r = ?new" by auto
  moreover have "r \<notin> set (vt_deleteMany ident rows)"
    using assms(3) by (simp add: vt_deleteMany_def)
  ultimately have "r = ?new" by simp
  then have "token r = token ?new" by (rule arg_cong)
  then show ?thesis by simp
qed

lemma old_token_unusable:
  assumes "tokens_unique rows" and "vt_findUnique old rows = Some row" and "vt_identifier row = ident"
    and "old \<noteq> tok"
    and "verificationTokens st' = vt_deleteMany ident rows
         \<or> verificationTokens st' = vt_deleteMany ident rows @ [\<lparr>vt_identifier = ident, token = tok, expires = exp\<rparr>]"
  shows "fst (verifyEmailToken env t old st') = Inr None"
    and "fst (resetPasswordWithToken env t old pw st') = Inr False"
proof -
  have "old \<notin> token ` set (verificationTokens st')"
    using old_token_deleted [OF assms(1,2,3)] assms(4,5) by auto
  then have gone: "vt_findUnique old (verificationTokens st') = None"
    by (simp add: vt_findUnique_None_iff)
  show "fst (verifyEmailToken env t old st') = Inr None"
    by (simp add: verifyEmailToken_absent [OF gone])
  show "fst (resetPasswordWithToken env t old pw st') = Inr False"
    by (simp add: resetPasswordWithToken_absent [OF gone])
qed

text \<open>
  C4. The token table starts empty and is written only by the four token operations; in
  every state they can reach, no two rows share an identifier. Issuing deletes the rows of
  the identifier before it creates the new one, so afterwards every row of that identifier
  carries the new token, and a token that was stored for the identifier before the issue
  (and differs from the new one) is no longer consumable: \<open>verifyEmailToken\<close> returns
  null for it and \<open>resetPasswordWithToken\<close> returns false.
\<close>

theorem C4_single_live_token:
  assumes "tokens_unique (verificationTokens st)"
    and "one_token_per_identifier (verificationTokens st)"
  shows "one_token_per_identifier (verificationTokens (run_token_ops env ops st))
       \<and> (\<forall>r\<in>set (verificationTokens (snd (generateVerificationToken rnd now em st))).
             vt_identifier r = em \<longrightarrow> token r = generateToken 64 rnd)
       \<and> (\<forall>r\<in>set (verificationTokens (snd (generatePasswordResetToken env rnd now em st))).
             user_findUnique em (users st) \<noteq> None \<longrightarrow> vt_identifier r = reset_prefix @ em \<longrightarrow>
             token r = generateToken 64 rnd)
       \<and> (vt_findUnique old (verificationTokens st) = Some row \<and> vt_identifier row = em
            \<and> old \<noteq> generateToken 64 rnd \<longrightarrow>
            fst (verifyEmailToken env t old (snd (generateVerificationToken rnd now em st))) = Inr None
            \<and> fst (resetPasswordWithToken env t old pw (snd (generateVerificationToken rnd now em st)))
                = Inr False)
       \<and> (vt_findUnique old (verificationTokens st) = Some row \<and> vt_identifier row = reset_prefix @ em
            \<and> user_findUnique em (users st) \<noteq> None \<and> old \<noteq> generateToken 64 rnd \<longrightarrow>
            fst (verifyEmailToken env t old (snd (generatePasswordResetToken env rnd now em st))) = Inr None
            \<and> fst (resetPasswordWithToken env t old pw (snd (generatePasswordResetToken env rnd now em st)))
                = Inr False)"
proof (intro conjI ballI impI)
  show "one_token_per_identifier (verificationTokens (run_token_ops env ops st))"
    using table_ok_run [OF assms] by simp
next
  fix r
  assume "r \<in> set (verificationTokens (snd (generateVerificationToken rnd now em st)))"
    and "vt_identifier r = em"
  with tokens_after_generateVerificationToken [of rnd now em st]
  show "token r = generateToken 64 rnd"
    by (auto intro: issued_row_only)
next
  fix r
  assume "r \<in> set (verificationTokens (snd (generatePasswordResetToken env rnd now em st)))"
    and "user_findUnique em (users st) \<noteq> None" and "vt_identifier r = reset_prefix @ em"
  with tokens_after_generatePasswordResetToken [of env rnd now em st]
  show "token r = generateToken 64 rnd"
    by (auto intro: issued_row_only)
next
  assume a: "vt_findUnique old (verificationTokens st) = Some row \<and> vt_identifier row = em
            \<and> old \<noteq> generateToken 64 rnd"
  have shape: "verificationTokens (snd (generateVerificationToken rnd now em st))
                 = vt_deleteMany em (verificationTokens st)
             \<or> verificationTokens (snd (generateVerificationToken rnd now em st))
                 = vt_deleteMany em (verificationTokens st)
                     @ [\<lparr>vt_identifier = em, token = generateToken 64 rnd,
                         expires = now + VERIFICATION_TTL_MS\<rparr>]"
    using tokens_after_generateVerificationToken [of rnd now em st] by blast
  from a have f: "vt_findUnique old (verificationTokens st) = Some row"
    and i: "vt_identifier row = em" and n: "old \<noteq> generateToken 64 rnd" by simp_all
  show "fst (verifyEmailToken env t old (snd (generateVerificationToken rnd now em st))) = Inr None"
    by (rule old_token_unusable(1) [OF assms(1) f i n shape])
  show "fst (resetPasswordWithToken env t old pw (snd (generateVerificationToken rnd now em st)))
          = Inr False"
    by (rule old_token_unusable(2) [OF assms(1) f i n shape])
next
  assume a: "vt_findUnique old (verificationTokens st) = Some row \<and> vt_identifier row = reset_prefix @ em
            \<and> user_findUnique em (users st) \<noteq> None \<and> old \<noteq> generateToken 64 rnd"
  then have shape: "verificationTokens (snd (generatePasswordResetToken env rnd now em st))
                 = vt_deleteMany (reset_prefix @ em) (verificationTokens st)
             \<or> verificationTokens (snd (generatePasswordResetToken env rnd now em st))
                 = vt_deleteMany (reset_prefix @ em) (verificationTokens st)
                     @ [\<lparr>vt_identifier = reset_prefix @ em, token = generateToken 64 rnd,
                         expires = now + RESET_TTL_MS\<rparr>]"
    using tokens_after_generatePasswordResetToken [of env rnd now em st] by auto
  from a have f: "vt_findUnique old (verificationTokens st) = Some row"
    and i: "vt_identifier row = reset_prefix @ em" and n: "old \<noteq> generateToken 64 rnd" by simp_all
  show "fst (verifyEmailToken env t old (snd (generatePasswordResetToken env rnd now em st))) = Inr None"
    by (rule old_token_unusable(1) [OF assms(1) f i n shape])
  show "fst (resetPasswordWithToken env t old pw (snd (generatePasswordResetToken env rnd now em st)))
          = Inr False"
    by (rule old_token_unusable(2) [OF assms(1) f i n shape])
qed

theorem C4_single_live_token_witness:
  "one_token_per_identifier (verificationTokens
      (run_token_ops example_env
         [IssueVerification example_random 0 ''demo@x.com'', IssueReset example_random 5 ''demo@x.com'',
          IssueVerification other_random 10 ''demo@x.com'']
         example_state))
   \<and> fst (verifyEmailToken example_env 1000 (generateToken 64 example_random)
        (snd (generateVerificationToken other_random 10 ''demo@x.com''
           (snd (generateVerificationToken example_random 0 ''demo@x.com'' example_state)))))
     = Inr None
   \<and> fst (resetPasswordWithToken example_env 1000 (generateToken 64 example_random) ''Newpass1''
        (snd (generatePasswordResetToken example_env other_random 10 ''demo@x.com''
           (snd (generatePasswordResetToken example_env example_random 0 ''demo@x.com'' example_state)))))
     = Inr False"
proof -
  let ?v1 = "snd (generateVerificationToken example_random 0 ''demo@x.com'' example_state)"
  let ?r1 = "snd (generatePasswordResetToken example_env example_random 0 ''demo@x.com'' example_state)"
  have e: "tokens_unique (verificationTokens example_state)"
      "one_token_per_identifier (verificationTokens example_state)"
    by (simp_all add: example_state_def tokens_unique_def one_token_per_identifier_def)
  have v1: "verificationTokens ?v1 =
      [\<lparr>vt_identifier = ''demo@x.com'', token = generateToken 64 example_random,
        expires = 0 + VERIFICATION_TTL_MS\<rparr>]"
    by (simp add: generateVerificationToken_def example_state_def vt_deleteMany_def vt_create_def Let_def)
  have r1: "verificationTokens ?r1 =
      [\<lparr>vt_identifier = reset_prefix @ ''demo@x.com'', token = generateToken 64 example_random,
        expires = 0 + RESET_TTL_MS\<rparr>]"
    "user_findUnique ''demo@x.com'' (users ?r1) \<noteq> None"
    by (simp_all add: generatePasswordResetToken_def example_state_def example_user_def
          user_findUnique_def vt_deleteMany_def vt_create_def Let_def log_event_def)
  have d: "generateToken 64 example_random \<noteq> generateToken 64 other_random"
    by code_simp
  have uv: "tokens_unique (verificationTokens ?v1)" "one_token_per_identifier (verificationTokens ?v1)"
    by (simp_all add: v1 tokens_unique_def one_token_per_identifier_def)
  have ur: "tokens_unique (verificationTokens ?r1)" "one_token_per_identifier (verificationTokens ?r1)"
    by (simp_all add: r1 tokens_unique_def one_token_per_identifier_def)
  have fv: "vt_findUnique (generateToken 64 example_random) (verificationTokens ?v1)
      = Some \<lparr>vt_identifier = ''demo@x.com'', token = generateToken 64 example_random,
               expires = 0 + VERIFICATION_TTL_MS\<rparr>"
    by (simp add: v1 vt_findUnique_def)
  have fr: "vt_findUnique (generateToken 64 example_random) (verificationTokens ?r1)
      = Some \<lparr>vt_identifier = reset_prefix @ ''demo@x.com'', token = generateToken 64 example_random,
               expires = 0 + RESET_TTL_MS\<rparr>"
    by (simp add: r1 vt_findUnique_def)
  show ?thesis
    using C4_single_live_token [OF e, of example_env
            "[IssueVerification example_random 0 ''demo@x.com'', IssueReset example_random 5 ''demo@x.com'',
              IssueVerification other_random 10 ''demo@x.com'']"]
          C4_single_live_token [OF uv, of example_env "[]" other_random 10 "''demo@x.com''"
            "generateToken 64 example_random"
            "\<lparr>vt_identifier = ''demo@x.com'', token = generateToken 64 example_random,
               expires = 0 + VERIFICATION_TTL_MS\<rparr>" 1000 "''Newpass1''"]
          C4_single_live_token [OF ur, of example_env "[]" other_random 10 "''demo@x.com''"
            "generateToken 64 example_random"
            "\<lparr>vt_identifier = reset_prefix @ ''demo@x.com'', token = generateToken 64 example_random,
               expires = 0 + RESET_TTL_MS\<rparr>" 1000 "''Newpass1''"]
          fv fr d r1(2)
    by simp
qed

section \<open>Properties of the login flow\<close>

lemma authorize_wrong_password:
  assumes "wrong_password env c (users st)"
    and "success (fst (check (rateLimitStore st) (auth_key (login_email c)) login_policy t))"
  shows "fst (authorize env c r t st) = Inl invalid_credentials_error"
    and "rateLimitStore (snd (authorize env c r t st))
           = snd (check (rateLimitStore st) (auth_key (login_email c)) login_policy t)"
    and "users (snd (authorize env c r t st)) = users st"
  using assms
  by (auto simp: authorize_def wrong_password_def login_email_def invalid_credentials_error_def
        Let_def log_event_def split: option.splits)

lemma authorize_no_usable_account:
  assumes "\<not> missing_credentials c" and "no_usable_account c (users st)"
    and "success (fst (check (rateLimitStore st) (auth_key (login_email c)) login_policy t))"
  shows "fst (authorize env c r t st) = Inl invalid_credentials_error"
  using assms
  by (auto simp: authorize_def no_usable_account_def login_email_def invalid_credentials_error_def
        Let_def log_event_def split: option.splits)

lemma authorize_rate_limited:
  assumes "\<not> missing_credentials c"
    and "\<not> success (fst (check (rateLimitStore st) (auth_key (login_email c)) login_policy t))"
  shows "fst (authorize env c r t st) =
           Inl (App (RateLimitError
             (msg_rate_limited
                (ceilDiv (case remainingMs (fst (check (rateLimitStore st) (auth_key (login_email c)) login_policy t)) of
                            None \<Rightarrow> 0 | Some v \<Rightarrow> v) 60000))
             None))"
    and "users (snd (authorize env c r t st)) = users st"
  using assms
  by (simp_all add: authorize_def login_email_def Let_def log_event_def)

lemma authorize_missing:
  "missing_credentials c \<Longrightarrow>
   authorize env c r t st = (Inl (App (AuthError msg_missing_credentials ''MISSING_CREDENTIALS'')), st)"
  by (simp add: authorize_def)

lemma authorize_success:
  assumes "fst (authorize env c r t st) = Inr u"
  shows "rateLimitStore (snd (authorize env c r t st)) (auth_key (login_email c)) = None"
    and "users (snd (authorize env c r t st)) = users st"
  using assms
  by (auto simp: authorize_def login_email_def Let_def log_event_def reset_def
           split: if_splits option.splits)

text \<open>
  C2. Take any two login attempts that get past the missing-fields test and the rate
  limiter, the first for an email with an account whose password hash does not match, the
  second for an email with no account or with an account that has no password hash. Both are
  rejected with the same value: the \<open>AuthError\<close> with the message
  \<open>Gecersiz email veya sifre\<close> (in its Turkish spelling), code \<open>INVALID_CREDENTIALS\<close> and
  status 401. Moreover, for one and the same attempt on one and the same state, the
  response does not change when the user table is exchanged between such an account and no
  account, whatever the rate limiter says.
\<close>

theorem C2_identical_rejection:
  "(rate_check_passes c1 t1 st1 \<and> wrong_password env1 c1 (users st1)
      \<and> rate_check_passes c2 t2 st2 \<and> no_usable_account c2 (users st2) \<longrightarrow>
      fst (authorize env1 c1 r1 t1 st1) =
        Inl (App \<lparr>cls = AuthErrorClass, message = msg_invalid_credentials,
                  code = ''INVALID_CREDENTIALS'', statusCode = 401, isOperational = True,
                  retryAfter = None\<rparr>)
      \<and> fst (authorize env2 c2 r2 t2 st2) = fst (authorize env1 c1 r1 t1 st1))
   \<and> (wrong_password env c us1 \<and> no_usable_account c us2 \<longrightarrow>
      fst (authorize env c r t (st\<lparr>users := us1\<rparr>)) = fst (authorize env c r t (st\<lparr>users := us2\<rparr>)))"
proof (intro conjI impI)
  assume a: "rate_check_passes c1 t1 st1 \<and> wrong_password env1 c1 (users st1)
      \<and> rate_check_passes c2 t2 st2 \<and> no_usable_account c2 (users st2)"
  then have first: "fst (authorize env1 c1 r1 t1 st1) = Inl invalid_credentials_error"
    using authorize_wrong_password(1) [of env1 c1 st1 t1 r1] by (simp add: rate_check_passes_def)
  from a have second: "fst (authorize env2 c2 r2 t2 st2) = Inl invalid_credentials_error"
    using authorize_no_usable_account [of c2 st2 t2 env2 r2] by (simp add: rate_check_passes_def)
  show "fst (authorize env1 c1 r1 t1 st1) =
        Inl (App \<lparr>cls = AuthErrorClass, message = msg_invalid_credentials,
                  code = ''INVALID_CREDENTIALS'', statusCode = 401, isOperational = True,
                  retryAfter = None\<rparr>)"
    using first by (simp add: invalid_credentials_error_def AuthError_def)
  show "fst (authorize env2 c2 r2 t2 st2) = fst (authorize env1 c1 r1 t1 st1)"
    using first second by simp
next
  assume a: "wrong_password env c us1 \<and> no_usable_account c us2"
  let ?s1 = "st\<lparr>users := us1\<rparr>" and ?s2 = "st\<lparr>users := us2\<rparr>"
  from a have present: "\<not> missing_credentials c" by (simp add: wrong_password_def)
  show "fst (authorize env c r t ?s1) = fst (authorize env c r t ?s2)"
  proof (cases "success (fst (check (rateLimitStore st) (auth_key (login_email c)) login_policy t))")
    case True
    then show ?thesis
      using a present authorize_wrong_password(1) [of env c ?s1 t r]
            authorize_no_usable_account [of c ?s2 t env r]
      by simp
  next
    case False
    then show ?thesis
      using present authorize_rate_limited(1) [of c ?s1 t env r]
            authorize_rate_limited(1) [of c ?s2 t env r]
      by simp
  qed
qed

theorem C2_identical_rejection_witness:
  "fst (authorize example_env (example_login ''wrong'') None 0 example_state) =
     Inl (App \<lparr>cls = AuthErrorClass, message = msg_invalid_credentials,
               code = ''INVALID_CREDENTIALS'', statusCode = 401, isOperational = True,
               retryAfter = None\<rparr>)
   \<and> fst (authorize example_env
            (Some \<lparr>cred_email = Some ''ghost@x.com'', cred_password = Some ''Abcdefg1''\<rparr>) None 7
            example_state)
     = fst (authorize example_env (example_login ''wrong'') None 0 example_state)
   \<and> fst (authorize example_env (example_login ''wrong'') None 0 (example_state\<lparr>users := [example_user]\<rparr>))
     = fst (authorize example_env (example_login ''wrong'') None 0 (example_state\<lparr>users := []\<rparr>))"
proof -
  let ?ghost = "Some \<lparr>cred_email = Some ''ghost@x.com'', cred_password = Some ''Abcdefg1''\<rparr>"
  have p1: "rate_check_passes (example_login ''wrong'') 0 example_state"
    by code_simp
  have w1: "wrong_password example_env (example_login ''wrong'') (users example_state)"
    by code_simp
  have p2: "rate_check_passes ?ghost 7 example_state"
    by code_simp
  have n2: "no_usable_account ?ghost (users example_state)"
    by code_simp
  have w3: "wrong_password example_env (example_login ''wrong'') [example_user]"
    by code_simp
  have n3: "no_usable_account (example_login ''wrong'') []"
    by code_simp
  show ?thesis
    using C2_identical_rejection [of "example_login ''wrong''" 0 example_state example_env ?ghost 7
              example_state None example_env None]
          C2_identical_rejection [of "example_login ''wrong''" 0 example_state example_env ?ghost 7
              example_state None example_env None
              example_env "example_login ''wrong''" "[example_user]" "[]" None 0 example_state]
          p1 w1 p2 n2 w3 n3
    by simp
qed

lemma login_policy_simps [simp]:
  "maxAttempts login_policy = 5" "windowMs login_policy = 900000"
  by (simp_all add: login_policy_def MAX_LOGIN_ATTEMPTS_def LOCKOUT_DURATION_MINUTES_def)

text \<open>
  Failed attempts for one email inside its active window, as long as the count stays within
  the limit: each is rejected for its credentials, the window's start is kept, the count
  grows by one per attempt and the user table is not written.
\<close>

lemma authorize_run_in_window:
  assumes "rateLimitStore st (auth_key em) = Some e"
    and "\<forall>(c, r, t)\<in>set rest. login_email c = em \<and> wrong_password env c (users st)
            \<and> t - firstAttempt e \<le> 900000"
    and "count e + int (length rest) \<le> 5"
  shows "fst (authorize_run env rest st) = replicate (length rest) (Inl invalid_credentials_error)
       \<and> users (snd (authorize_run env rest st)) = users st
       \<and> (\<exists>e'. rateLimitStore (snd (authorize_run env rest st)) (auth_key em) = Some e'
              \<and> count e' = count e + int (length rest) \<and> firstAttempt e' = firstAttempt e)"
  using assms
proof (induction rest arbitrary: st e)
  case Nil
  then show ?case by simp
next
  case (Cons a rest)
  obtain c r t where a: "a = (c, r, t)" by (cases a) auto
  let ?e' = "e\<lparr>count := count e + 1, lastAttempt := t\<rparr>"
  let ?st' = "snd (authorize env c r t st)"
  from Cons.prems(2) a have em: "login_email c = em" and wp: "wrong_password env c (users st)"
    and tw: "t - firstAttempt e \<le> windowMs login_policy"
    by simp_all
  from Cons.prems(3) have le: "\<not> count e + 1 > maxAttempts login_policy" by simp
  have chk: "check (rateLimitStore st) (auth_key em) login_policy t =
      (\<lparr>success = True, remaining = maxAttempts login_policy - (count e + 1), remainingMs = None\<rparr>,
       (rateLimitStore st)(auth_key em \<mapsto> ?e'))"
    using check_in_window [of "rateLimitStore st" "auth_key em" e t login_policy] Cons.prems(1) tw le
    by (simp only: if_False)
  have ok: "success (fst (check (rateLimitStore st) (auth_key (login_email c)) login_policy t))"
    by (simp add: em chk)
  note step = authorize_wrong_password [OF wp ok, of r]
  have s1: "rateLimitStore ?st' (auth_key em) = Some ?e'"
    by (simp add: step(2) em chk)
  have s2: "\<forall>(c, r, t)\<in>set rest. login_email c = em \<and> wrong_password env c (users ?st')
            \<and> t - firstAttempt ?e' \<le> 900000"
    using Cons.prems(2) by (auto simp: step(3))
  have s3: "count ?e' + int (length rest) \<le> 5"
    using Cons.prems(3) by simp
  from Cons.IH [OF s1 s2 s3] show ?case
    by (auto simp: a step(1) step(3))
qed

text \<open>
  C1. (a) From a state in which the email's key has no rate-limit entry (the empty map in
  particular), five consecutive attempts with a wrong password for the same normalised
  email are each rejected for their credentials; a sixth attempt for that email, whatever
  its password, with all six no more than 15 minutes after the first, is rejected with the
  \<open>RateLimitError\<close>, and the answer is the same for every user table: the credential store
  is not consulted. (b) A successful login leaves no rate-limit entry for the email's key,
  so a following failed attempt for that email is rejected for its credentials and stores a
  fresh entry (count 1, window starting at that attempt).
\<close>

theorem C1_lockout_after_five_failures:
  "(rateLimitStore st (auth_key em) = None
      \<and> login_email c_first = em \<and> wrong_password env c_first (users st)
      \<and> length rest = 4
      \<and> (\<forall>(c, r, t)\<in>set rest. login_email c = em \<and> wrong_password env c (users st) \<and> t - t_first \<le> 900000)
      \<and> \<not> missing_credentials c_sixth \<and> login_email c_sixth = em \<and> t_sixth - t_first \<le> 900000 \<longrightarrow>
      fst (authorize_run env ((c_first, r_first, t_first) # rest) st) = replicate 5 (Inl invalid_credentials_error)
      \<and> (\<forall>us. fst (authorize env c_sixth r_sixth t_sixth ((snd (authorize_run env ((c_first, r_first, t_first) # rest) st))\<lparr>users := us\<rparr>))
             = Inl (App (RateLimitError (msg_rate_limited (ceilDiv (900000 - (t_sixth - t_first)) 60000)) None))))
   \<and> (fst (authorize env c r t s) = Inr u \<longrightarrow>
        rateLimitStore (snd (authorize env c r t s)) (auth_key (login_email c)) = None)
   \<and> (fst (authorize env c r t s) = Inr u \<and> login_email c' = login_email c
        \<and> wrong_password env c' (users s) \<longrightarrow>
        fst (authorize env c' r' t' (snd (authorize env c r t s))) = Inl invalid_credentials_error
        \<and> rateLimitStore (snd (authorize env c' r' t' (snd (authorize env c r t s)))) (auth_key (login_email c))
            = Some \<lparr>count = 1, firstAttempt = t', lastAttempt = t'\<rparr>)"
proof (intro conjI impI allI)
  assume a: "rateLimitStore st (auth_key em) = None
      \<and> login_email c_first = em \<and> wrong_password env c_first (users st)
      \<and> length rest = 4
      \<and> (\<forall>(c, r, t)\<in>set rest. login_email c = em \<and> wrong_password env c (users st) \<and> t - t_first \<le> 900000)
      \<and> \<not> missing_credentials c_sixth \<and> login_email c_sixth = em \<and> t_sixth - t_first \<le> 900000"
  let ?s1 = "snd (authorize env c_first r_first t_first st)"
  let ?s5 = "snd (authorize_run env ((c_first, r_first, t_first) # rest) st)"
  from a have chk1: "check (rateLimitStore st) (auth_key (login_email c_first)) login_policy t_first =
      (\<lparr>success = True, remaining = maxAttempts login_policy - 1, remainingMs = None\<rparr>,
       (rateLimitStore st)(auth_key em \<mapsto> fresh_entry t_first))"
    by (simp add: check_def)
  from a have wp1: "wrong_password env c_first (users st)" by simp
  have ok1: "success (fst (check (rateLimitStore st) (auth_key (login_email c_first)) login_policy t_first))"
    by (simp add: chk1)
  note step1 = authorize_wrong_password [OF wp1 ok1, of r_first]
  have e1: "rateLimitStore ?s1 (auth_key em) = Some (fresh_entry t_first)"
    by (simp add: step1(2) chk1)
  have w: "\<forall>(c, r, t)\<in>set rest. login_email c = em \<and> wrong_password env c (users ?s1)
            \<and> t - firstAttempt (fresh_entry t_first) \<le> 900000"
    using a by (auto simp: step1(3) fresh_entry_def)
  have n: "count (fresh_entry t_first) + int (length rest) \<le> 5"
    using a by (simp add: fresh_entry_def)
  from authorize_run_in_window [OF e1 w n]
  obtain e5 where res: "fst (authorize_run env rest ?s1) = replicate (length rest) (Inl invalid_credentials_error)"
    and e5: "rateLimitStore (snd (authorize_run env rest ?s1)) (auth_key em) = Some e5"
    and c5: "count e5 = count (fresh_entry t_first) + int (length rest)"
    and f5: "firstAttempt e5 = firstAttempt (fresh_entry t_first)"
    by blast
  show five: "fst (authorize_run env ((c_first, r_first, t_first) # rest) st) = replicate 5 (Inl invalid_credentials_error)"
    using a by (simp add: step1(1) res numeral_eq_Suc)
  {
    fix us
    let ?s = "?s5\<lparr>users := us\<rparr>"
    have rl: "rateLimitStore ?s = rateLimitStore ?s5" by simp
    have key: "rateLimitStore ?s5 (auth_key em) = Some e5" using e5 by simp
    have full: "count e5 = 5" using c5 a by (simp add: fresh_entry_def)
    have start: "firstAttempt e5 = t_first" using f5 by (simp add: fresh_entry_def)
    have in_w: "t_sixth - firstAttempt e5 \<le> windowMs login_policy" using a start by simp
    have c_sixth: "login_email c_sixth = em" using a by simp
    have chk6: "fst (check (rateLimitStore ?s5) (auth_key em) login_policy t_sixth) =
        \<lparr>success = False, remaining = 0, remainingMs = Some (900000 - (t_sixth - t_first))\<rparr>"
      using check_in_window [of "rateLimitStore ?s5" "auth_key em" e5 t_sixth login_policy] key in_w full start a
      by (simp add: max_def)
    have p6: "\<not> missing_credentials c_sixth" using a by simp
    have f6: "\<not> success (fst (check (rateLimitStore ?s) (auth_key (login_email c_sixth)) login_policy t_sixth))"
      unfolding rl c_sixth chk6 by simp
    show "fst (authorize env c_sixth r_sixth t_sixth ?s)
            = Inl (App (RateLimitError (msg_rate_limited (ceilDiv (900000 - (t_sixth - t_first)) 60000)) None))"
      using authorize_rate_limited(1) [OF p6 f6, of env r_sixth] unfolding rl c_sixth chk6 by simp
  }
next
  assume "fst (authorize env c r t s) = Inr u"
  then show "rateLimitStore (snd (authorize env c r t s)) (auth_key (login_email c)) = None"
    by (rule authorize_success(1))
next
  assume a: "fst (authorize env c r t s) = Inr u \<and> login_email c' = login_email c
        \<and> wrong_password env c' (users s)"
  let ?s' = "snd (authorize env c r t s)"
  from a have ok: "fst (authorize env c r t s) = Inr u" by simp
  from a have eq: "login_email c' = login_email c" by simp
  have none: "rateLimitStore ?s' (auth_key (login_email c)) = None"
    by (rule authorize_success(1) [OF ok])
  have wp: "wrong_password env c' (users ?s')"
    using a authorize_success(2) [OF ok] by simp
  have chk: "check (rateLimitStore ?s') (auth_key (login_email c)) login_policy t' =
      (\<lparr>success = True, remaining = maxAttempts login_policy - 1, remainingMs = None\<rparr>,
       (rateLimitStore ?s')(auth_key (login_email c) \<mapsto> fresh_entry t'))"
    using none by (simp add: check_def)
  have pass: "success (fst (check (rateLimitStore ?s') (auth_key (login_email c')) login_policy t'))"
    by (simp add: eq chk)
  note step = authorize_wrong_password [OF wp pass, of r']
  show "fst (authorize env c' r' t' ?s') = Inl invalid_credentials_error"
    by (rule step(1))
  show "rateLimitStore (snd (authorize env c' r' t' ?s')) (auth_key (login_email c))
          = Some \<lparr>count = 1, firstAttempt = t', lastAttempt = t'\<rparr>"
    using step(2) by (simp add: eq chk fresh_entry_def)
qed

theorem C1_lockout_after_five_failures_witness:
  "fst (authorize_run example_env
          [(example_login ''wrong'', None, 0), (example_login ''wrong'', None, 1000),
           (example_login ''wrong'', None, 2000), (example_login ''wrong'', None, 3000),
           (example_login ''wrong'', None, 4000)]
          example_state)
     = replicate 5 (Inl invalid_credentials_error)
   \<and> fst (authorize example_env (example_login ''Abcdefg1'') None 60000
        (snd (authorize_run example_env
          [(example_login ''wrong'', None, 0), (example_login ''wrong'', None, 1000),
           (example_login ''wrong'', None, 2000), (example_login ''wrong'', None, 3000),
           (example_login ''wrong'', None, 4000)]
          example_state)))
     = Inl (App (RateLimitError (msg_rate_limited 14) None))
   \<and> rateLimitStore (snd (authorize example_env (example_login ''Abcdefg1'') None 0 example_state))
        ''auth:demo@x.com'' = None
   \<and> rateLimitStore
        (snd (authorize example_env (example_login ''wrong'') None 50
           (snd (authorize example_env (example_login ''Abcdefg1'') None 0 example_state))))
        ''auth:demo@x.com''
     = Some \<lparr>count = 1, firstAttempt = 50, lastAttempt = 50\<rparr>"
proof -
  let ?rest = "[(example_login ''wrong'', None, 1000), (example_login ''wrong'', None, 2000),
                (example_login ''wrong'', None, 3000), (example_login ''wrong'', None, 4000)]
                 :: (credentials option \<times> request option \<times> millis) list"
  let ?s5 = "snd (authorize_run example_env ((example_login ''wrong'', None, 0) # ?rest) example_state)"
  let ?u = "\<lparr>au_id = ''u1'', au_email = ''demo@x.com'', au_name = Some ''Demo'', au_image = None,
             au_emailVerified = None\<rparr>"
  have em: "login_email (example_login ''wrong'') = ''demo@x.com''"
      "login_email (example_login ''Abcdefg1'') = ''demo@x.com''"
    by code_simp+
  have key: "auth_key ''demo@x.com'' = ''auth:demo@x.com''"
    by (simp add: auth_key_def)
  have unseen: "rateLimitStore example_state (auth_key ''demo@x.com'') = None"
    by (simp add: example_state_def)
  have wp: "wrong_password example_env (example_login ''wrong'') (users example_state)"
    by code_simp
  have present: "\<not> missing_credentials (example_login ''Abcdefg1'')"
    by code_simp
  have ok: "fst (authorize example_env (example_login ''Abcdefg1'') None 0 example_state) = Inr ?u"
    by code_simp
  have mins: "ceilDiv (900000 - (60000 - 0)) 60000 = 14"
    by (simp add: ceilDiv_def)
  have same: "?s5\<lparr>users := users ?s5\<rparr> = ?s5" by simp
  note inst = C1_lockout_after_five_failures
      [where st = example_state and em = "''demo@x.com''" and c_first = "example_login ''wrong''"
         and env = example_env and rest = ?rest and t_first = 0 and r_first = None
         and c_sixth = "example_login ''Abcdefg1''" and t_sixth = 60000 and r_sixth = None
         and c = "example_login ''Abcdefg1''" and r = None and t = 0 and s = example_state and u = ?u
         and c' = "example_login ''wrong''" and r' = None and t' = 50]
  have part_a: "fst (authorize_run example_env ((example_login ''wrong'', None, 0) # ?rest) example_state)
       = replicate 5 (Inl invalid_credentials_error)
     \<and> (\<forall>us. fst (authorize example_env (example_login ''Abcdefg1'') None 60000 (?s5\<lparr>users := us\<rparr>))
           = Inl (App (RateLimitError (msg_rate_limited 14) None)))"
    using inst em unseen wp present mins by simp
  then have sixth: "fst (authorize example_env (example_login ''Abcdefg1'') None 60000 (?s5\<lparr>users := users ?s5\<rparr>))
           = Inl (App (RateLimitError (msg_rate_limited 14) None))"
    by blast
  have part_b: "rateLimitStore (snd (authorize example_env (example_login ''Abcdefg1'') None 0 example_state))
        (auth_key ''demo@x.com'') = None
     \<and> rateLimitStore
        (snd (authorize example_env (example_login ''wrong'') None 50
           (snd (authorize example_env (example_login ''Abcdefg1'') None 0 example_state))))
        (auth_key ''demo@x.com'')
       = Some \<lparr>count = 1, firstAttempt = 50, lastAttempt = 50\<rparr>"
    using inst em wp ok by simp
  show ?thesis
    using part_a sixth part_b unfolding same key by simp
qed

end
